theory Spec2Isabelle
  imports Main "HOL-Library.Monad_Syntax"
begin

section \<open>Data model shared by both copies of the board code\<close>

text \<open>
  The repository holds two copies of the board logic: \<^verbatim>\<open>frontend/src/App.js\<close> and a second,
  later copy (\<^verbatim>\<open>unnamed/part_000\<close>) that fetches its levels from the backend.  Both define
  \<^verbatim>\<open>parseMap\<close>, \<^verbatim>\<open>applyMove\<close> and \<^verbatim>\<open>isGoal\<close>.  The definitions of the first copy keep
  the source's names; those of the second carry the suffix \<open>_p0\<close>.

  Coordinates are JavaScript numbers that only ever hold integers here (indices, and indices
  plus or minus one), so they are modelled as \<open>int\<close>.  Rows are strings over the one-byte
  symbol alphabet, for which iterating a string (\<^verbatim>\<open>[...row]\<close>) and indexing it
  (\<^verbatim>\<open>map[y][x]\<close>) visit the same characters.
\<close>

datatype error = TypeError

text \<open>An object \<^verbatim>\<open>{ x, y }\<close>.\<close>

record pos =
  pos_x :: int
  pos_y :: int

text \<open>An object \<^verbatim>\<open>{ x, y, id }\<close>, the boxes of \<^verbatim>\<open>App.js\<close>.\<close>

record box =
  box_x :: int
  box_y :: int
  box_id :: nat

text \<open>
  The keys of the objects \<^verbatim>\<open>dirs\<close> and \<^verbatim>\<open>moves\<close>.  Only these four keys are modelled: the
  type excludes every other string.
\<close>

datatype move = U | D | L | R

subsection \<open>Template literals: printing a number\<close>

definition digit_char :: "nat \<Rightarrow> char" where
  "digit_char d = ''0123456789'' ! d"

fun show_nat :: "nat \<Rightarrow> string" where
  "show_nat n = (if n < 10 then [digit_char n] else show_nat (n div 10) @ [digit_char (n mod 10)])"

declare show_nat.simps [simp del]

definition show_int :: "int \<Rightarrow> string" where
  "show_int i = (if i < 0 then CHR ''-'' # show_nat (nat (- i)) else show_nat (nat i))"

text \<open>The template literal \<^verbatim>\<open>`${x},${y}`\<close>.\<close>

definition pos_key :: "int \<Rightarrow> int \<Rightarrow> string" where
  "pos_key x y = show_int x @ '','' @ show_int y"

section \<open>\<^verbatim>\<open>frontend/src/App.js\<close>\<close>

text \<open>
  The object returned by \<^verbatim>\<open>parseMap\<close>.  \<open>player\<close> is \<open>None\<close> for \<^verbatim>\<open>null\<close>; \<open>walls\<close> is a
  \<^verbatim>\<open>Set\<close> of position keys; the field \<^verbatim>\<open>map\<close> is called \<open>map_rows\<close>.
\<close>

record state =
  player :: "pos option"
  boxes :: "box list"
  goals :: "pos list"
  walls :: "string set"
  width :: nat
  height :: nat
  map_rows :: "string list"

text \<open>The four local variables that the two nested \<^verbatim>\<open>forEach\<close> loops of \<^verbatim>\<open>parseMap\<close> update.\<close>

record scan =
  scan_player :: "pos option"
  scan_boxes :: "box list"
  scan_goals :: "pos list"
  scan_walls :: "string set"

text \<open>The body of the inner callback, for the cell \<open>cell\<close> at column \<open>x\<close> of row \<open>y\<close>.\<close>

definition scan_cell :: "nat \<Rightarrow> nat \<Rightarrow> char \<Rightarrow> scan \<Rightarrow> scan" where
  "scan_cell x y cell a =
    (let a1 = (if cell = CHR ''@'' \<or> cell = CHR ''+''
               then a\<lparr>scan_player := Some \<lparr>pos_x = int x, pos_y = int y\<rparr>\<rparr> else a);
         a2 = (if cell = CHR ''$'' \<or> cell = CHR ''*''
               then a1\<lparr>scan_boxes := scan_boxes a1 @
                      [\<lparr>box_x = int x, box_y = int y, box_id = length (scan_boxes a1)\<rparr>]\<rparr>
               else a1);
         a3 = (if cell = CHR ''.'' \<or> cell = CHR ''*'' \<or> cell = CHR ''+''
               then a2\<lparr>scan_goals := scan_goals a2 @ [\<lparr>pos_x = int x, pos_y = int y\<rparr>]\<rparr>
               else a2)
     in if cell = CHR ''#''
        then a3\<lparr>scan_walls := insert (pos_key (int x) (int y)) (scan_walls a3)\<rparr>
        else a3)"

text \<open>\<^verbatim>\<open>[...row].forEach((cell, x) => ...)\<close>, from column \<open>x\<close> on.\<close>

fun scan_row :: "nat \<Rightarrow> nat \<Rightarrow> string \<Rightarrow> scan \<Rightarrow> scan" where
  "scan_row y x [] a = a"
| "scan_row y x (cell # cells) a = scan_row y (Suc x) cells (scan_cell x y cell a)"

text \<open>\<^verbatim>\<open>map.forEach((row, y) => ...)\<close>, from row \<open>y\<close> on.\<close>

fun scan_rows :: "nat \<Rightarrow> string list \<Rightarrow> scan \<Rightarrow> scan" where
  "scan_rows y [] a = a"
| "scan_rows y (row # rows) a = scan_rows (Suc y) rows (scan_row y 0 row a)"

definition scan_init :: scan where
  "scan_init = \<lparr>scan_player = None, scan_boxes = [], scan_goals = [], scan_walls = {}\<rparr>"

text \<open>
  \<^verbatim>\<open>parseMap\<close>.  The loops run first; the returned object then reads \<^verbatim>\<open>map[0].length\<close>, which
  throws a TypeError when the map has no row (\<^verbatim>\<open>map[0]\<close> is \<^verbatim>\<open>undefined\<close>).
\<close>

definition parseMap :: "string list \<Rightarrow> error + state" where
  "parseMap rows =
    (let a = scan_rows 0 rows scan_init
     in case rows of
          [] \<Rightarrow> Inl TypeError
        | row0 # _ \<Rightarrow>
            Inr \<lparr>player = scan_player a, boxes = scan_boxes a, goals = scan_goals a,
                 walls = scan_walls a, width = length row0, height = length rows,
                 map_rows = rows\<rparr>)"

text \<open>The table \<^verbatim>\<open>dirs\<close>.\<close>

fun dirs :: "move \<Rightarrow> int \<times> int" where
  "dirs U = (0, - 1)"
| "dirs D = (0, 1)"
| "dirs L = (- 1, 0)"
| "dirs R = (1, 0)"

text \<open>\<^verbatim>\<open>Array.prototype.findIndex\<close>: the first index whose element satisfies \<open>P\<close>, \<open>None\<close> for -1.\<close>

fun findIndex :: "('a \<Rightarrow> bool) \<Rightarrow> 'a list \<Rightarrow> nat option" where
  "findIndex P [] = None"
| "findIndex P (b # bs) =
    (if P b then Some 0 else (case findIndex P bs of None \<Rightarrow> None | Some i \<Rightarrow> Some (Suc i)))"

text \<open>
  \<^verbatim>\<open>applyMove\<close>, on values.  Reading \<^verbatim>\<open>state.player.x\<close> throws a TypeError when the player is
  \<^verbatim>\<open>null\<close>.  The copy \<open>newState\<close> takes every field of \<open>state\<close>; then the player and at most
  one box are replaced.  No wall and no other box is looked at.
\<close>

definition applyMove :: "state \<Rightarrow> move \<Rightarrow> error + state" where
  "applyMove st mv =
    (case player st of
       None \<Rightarrow> Inl TypeError
     | Some p \<Rightarrow>
        (let x = pos_x p; y = pos_y p;
             (dx, dy) = dirs mv;
             newX = x + dx;
             newY = y + dy;
             newState = st\<lparr>player := Some \<lparr>pos_x = newX, pos_y = newY\<rparr>\<rparr>
         in case findIndex (\<lambda>b. box_x b = newX \<and> box_y b = newY) (boxes newState) of
              None \<Rightarrow> Inr newState
            | Some boxIndex \<Rightarrow>
                Inr (newState\<lparr>boxes := (boxes newState)
                       [boxIndex := \<lparr>box_x = newX + dx, box_y = newY + dy,
                                     box_id = box_id (boxes newState ! boxIndex)\<rparr>]\<rparr>)))"

text \<open>\<^verbatim>\<open>isGoal\<close>; the argument is \<open>None\<close> for a falsy \<^verbatim>\<open>state\<close>.\<close>

definition isGoal :: "state option \<Rightarrow> bool" where
  "isGoal s =
    (case s of
       None \<Rightarrow> False
     | Some st \<Rightarrow>
         list_all (\<lambda>b. list_ex (\<lambda>g. pos_x g = box_x b \<and> pos_y g = box_y b) (goals st)) (boxes st))"

text \<open>
  Replaying a path: the loop \<^verbatim>\<open>state = applyMove(state, solution[i])\<close> of
  \<^verbatim>\<open>getCurrentState\<close>.  The exception of a step ends the loop and is the result here; the
  \<^verbatim>\<open>try\<close> block around the loop, which logs it and shows the initial state instead, is
  not modelled.
\<close>

fun replay :: "state \<Rightarrow> move list \<Rightarrow> error + state" where
  "replay st [] = Inr st"
| "replay st (mv # mvs) =
    (case applyMove st mv of Inl e \<Rightarrow> Inl e | Inr st' \<Rightarrow> replay st' mvs)"

text \<open>
  \<^verbatim>\<open>initializeGame\<close> followed by the replay loop: the map is parsed and the path applied to
  the parsed state.
\<close>

definition replay_map :: "string list \<Rightarrow> move list \<Rightarrow> error + state" where
  "replay_map rows mvs = (case parseMap rows of Inl e \<Rightarrow> Inl e | Inr st \<Rightarrow> replay st mvs)"

section \<open>\<^verbatim>\<open>unnamed/part_000\<close>\<close>

text \<open>
  The values the field \<^verbatim>\<open>width\<close> takes in this copy: a length, \<^verbatim>\<open>-Infinity\<close> (what
  \<^verbatim>\<open>Math.max()\<close> returns without arguments), or \<^verbatim>\<open>null\<close> (what \<^verbatim>\<open>-Infinity\<close> becomes on a
  round trip through JSON).
\<close>

datatype jsnum = Num nat | NegInfinity | JNull

text \<open>\<^verbatim>\<open>Math.max(...ns)\<close>.\<close>

fun math_max :: "nat list \<Rightarrow> jsnum" where
  "math_max [] = NegInfinity"
| "math_max (n # ns) = Num (fold max ns n)"

text \<open>The state object of this copy: boxes carry no \<^verbatim>\<open>id\<close>, \<^verbatim>\<open>walls\<close> is an array of keys.\<close>

record state_p0 =
  player_p0 :: "pos option"
  boxes_p0 :: "pos list"
  goals_p0 :: "pos list"
  walls_p0 :: "string list"
  width_p0 :: jsnum
  height_p0 :: nat

text \<open>The body of the inner \<^verbatim>\<open>for\<close> loop, for \<^verbatim>\<open>cell = map[y][x]\<close>.\<close>

definition cell_p0 :: "nat \<Rightarrow> nat \<Rightarrow> char \<Rightarrow> state_p0 \<Rightarrow> state_p0" where
  "cell_p0 x y cell st =
    (let s1 = (if cell = CHR ''@'' \<or> cell = CHR ''+''
               then st\<lparr>player_p0 := Some \<lparr>pos_x = int x, pos_y = int y\<rparr>\<rparr> else st);
         s2 = (if cell = CHR ''$'' \<or> cell = CHR ''*''
               then s1\<lparr>boxes_p0 := boxes_p0 s1 @ [\<lparr>pos_x = int x, pos_y = int y\<rparr>]\<rparr> else s1);
         s3 = (if cell = CHR ''.'' \<or> cell = CHR ''*'' \<or> cell = CHR ''+''
               then s2\<lparr>goals_p0 := goals_p0 s2 @ [\<lparr>pos_x = int x, pos_y = int y\<rparr>]\<rparr> else s2)
     in if cell = CHR ''#''
        then s3\<lparr>walls_p0 := walls_p0 s3 @ [pos_key (int x) (int y)]\<rparr>
        else s3)"

text \<open>\<^verbatim>\<open>for (let x = ...; x < map[y].length; x++)\<close>, over the cells from column \<open>x\<close> on.\<close>

fun row_p0 :: "nat \<Rightarrow> nat \<Rightarrow> string \<Rightarrow> state_p0 \<Rightarrow> state_p0" where
  "row_p0 y x [] st = st"
| "row_p0 y x (cell # cells) st = row_p0 y (Suc x) cells (cell_p0 x y cell st)"

text \<open>\<^verbatim>\<open>for (let y = ...; y < map.length; y++)\<close>, over the rows from row \<open>y\<close> on.\<close>

fun rows_p0 :: "nat \<Rightarrow> string list \<Rightarrow> state_p0 \<Rightarrow> state_p0" where
  "rows_p0 y [] st = st"
| "rows_p0 y (row # rows) st = rows_p0 (Suc y) rows (row_p0 y 0 row st)"

text \<open>\<^verbatim>\<open>parseMap\<close>: nothing in it throws on an array of strings.\<close>

definition parseMap_p0 :: "string list \<Rightarrow> state_p0" where
  "parseMap_p0 rows =
    rows_p0 0 rows
      \<lparr>player_p0 = None, boxes_p0 = [], goals_p0 = [], walls_p0 = [],
       width_p0 = math_max (map length rows), height_p0 = length rows\<rparr>"

text \<open>What \<^verbatim>\<open>JSON.parse(JSON.stringify(v))\<close> returns for a number \<open>v\<close>, and for a state.\<close>

fun json_num :: "jsnum \<Rightarrow> jsnum" where
  "json_num (Num n) = Num n"
| "json_num NegInfinity = JNull"
| "json_num JNull = JNull"

definition json_clone :: "state_p0 \<Rightarrow> state_p0" where
  "json_clone st = st\<lparr>width_p0 := json_num (width_p0 st)\<rparr>"

text \<open>The table \<^verbatim>\<open>moves\<close>.\<close>

fun moves :: "move \<Rightarrow> int \<times> int" where
  "moves U = (0, - 1)"
| "moves D = (0, 1)"
| "moves L = (- 1, 0)"
| "moves R = (1, 0)"

text \<open>
  \<^verbatim>\<open>applyMove\<close>, on values.  The clone is made first; destructuring \<^verbatim>\<open>newState.player\<close>
  throws a TypeError when it is \<^verbatim>\<open>null\<close>.
\<close>

definition applyMove_p0 :: "state_p0 \<Rightarrow> move \<Rightarrow> error + state_p0" where
  "applyMove_p0 st mv =
    (let newState = json_clone st
     in case player_p0 newState of
          None \<Rightarrow> Inl TypeError
        | Some p \<Rightarrow>
           (let x = pos_x p; y = pos_y p;
                (dx, dy) = moves mv;
                newX = x + dx;
                newY = y + dy;
                newState' =
                  (case findIndex (\<lambda>b. pos_x b = newX \<and> pos_y b = newY) (boxes_p0 newState) of
                     None \<Rightarrow> newState
                   | Some boxIndex \<Rightarrow>
                       newState\<lparr>boxes_p0 := (boxes_p0 newState)
                         [boxIndex := \<lparr>pos_x = newX + dx, pos_y = newY + dy\<rparr>]\<rparr>)
            in Inr (newState'\<lparr>player_p0 := Some \<lparr>pos_x = newX, pos_y = newY\<rparr>\<rparr>)))"

definition isGoal_p0 :: "state_p0 option \<Rightarrow> bool" where
  "isGoal_p0 s =
    (case s of
       None \<Rightarrow> False
     | Some st \<Rightarrow>
         list_all (\<lambda>b. list_ex (\<lambda>g. pos_x g = pos_x b \<and> pos_y g = pos_y b) (goals_p0 st))
           (boxes_p0 st))"

text \<open>The loop \<^verbatim>\<open>for (const move of result.path)\<close> of \<^verbatim>\<open>solveWithAPI\<close>.\<close>

fun replay_p0 :: "state_p0 \<Rightarrow> move list \<Rightarrow> error + state_p0" where
  "replay_p0 st [] = Inr st"
| "replay_p0 st (mv # mvs) =
    (case applyMove_p0 st mv of Inl e \<Rightarrow> Inl e | Inr st' \<Rightarrow> replay_p0 st' mvs)"

section \<open>Move application on an object store\<close>

text \<open>
  The functions above compute with values, which nothing can mutate.  To see what
  \<^verbatim>\<open>applyMove\<close> does to the objects it is given, the same code is modelled once more on an
  object store: the state, its player, its arrays and their elements are objects, a reference
  is an index into the store, and a new object takes the next free index.  A result \<open>None\<close>
  stands for a thrown TypeError (and for a store whose objects do not have the shape that
  \<^verbatim>\<open>parseMap\<close> gives them).
\<close>

text \<open>The fields of a state object of \<^verbatim>\<open>App.js\<close> and of \<^verbatim>\<open>part_000\<close>: references and numbers.\<close>

record state_obj =
  ref_player :: "nat option"
  ref_boxes :: nat
  ref_goals :: nat
  ref_walls :: nat
  val_width :: nat
  val_height :: nat
  ref_map :: nat

record state_obj_p0 =
  ref_player_p0 :: "nat option"
  ref_boxes_p0 :: nat
  ref_goals_p0 :: nat
  ref_walls_p0 :: nat
  val_width_p0 :: jsnum
  val_height_p0 :: nat

datatype obj =
    Pos int int
  | Box int int nat
  | Arr "nat list"
  | KeySet "string set"
  | Strs "string list"
  | State state_obj
  | State_p0 state_obj_p0

type_synonym store = "obj list"

definition alloc :: "store \<Rightarrow> obj \<Rightarrow> store \<times> nat" where
  "alloc h ob = (h @ [ob], length h)"

definition deref :: "store \<Rightarrow> nat \<Rightarrow> obj option" where
  "deref h r = (if r < length h then Some (h ! r) else None)"

definition read_pos :: "store \<Rightarrow> nat \<Rightarrow> (int \<times> int) option" where
  "read_pos h r = (case deref h r of Some (Pos x y) \<Rightarrow> Some (x, y) | _ \<Rightarrow> None)"

definition read_box :: "store \<Rightarrow> nat \<Rightarrow> (int \<times> int \<times> nat) option" where
  "read_box h r = (case deref h r of Some (Box x y i) \<Rightarrow> Some (x, y, i) | _ \<Rightarrow> None)"

definition read_arr :: "store \<Rightarrow> nat \<Rightarrow> nat list option" where
  "read_arr h r = (case deref h r of Some (Arr rs) \<Rightarrow> Some rs | _ \<Rightarrow> None)"

definition read_strs :: "store \<Rightarrow> nat \<Rightarrow> string list option" where
  "read_strs h r = (case deref h r of Some (Strs ss) \<Rightarrow> Some ss | _ \<Rightarrow> None)"

definition read_keys :: "store \<Rightarrow> nat \<Rightarrow> string set option" where
  "read_keys h r = (case deref h r of Some (KeySet ks) \<Rightarrow> Some ks | _ \<Rightarrow> None)"

definition read_state :: "store \<Rightarrow> nat \<Rightarrow> state_obj option" where
  "read_state h r = (case deref h r of Some (State so) \<Rightarrow> Some so | _ \<Rightarrow> None)"

definition read_state_p0 :: "store \<Rightarrow> nat \<Rightarrow> state_obj_p0 option" where
  "read_state_p0 h r = (case deref h r of Some (State_p0 so) \<Rightarrow> Some so | _ \<Rightarrow> None)"

text \<open>The object literals \<^verbatim>\<open>{ x: b.x, y: b.y, id: b.id }\<close> and \<^verbatim>\<open>{ x: g.x, y: g.y }\<close>.\<close>

definition clone_box :: "store \<Rightarrow> nat \<Rightarrow> (store \<times> nat) option" where
  "clone_box h b = do { (x, y, i) \<leftarrow> read_box h b; Some (alloc h (Box x y i)) }"

definition clone_pos :: "store \<Rightarrow> nat \<Rightarrow> (store \<times> nat) option" where
  "clone_pos h g = do { (x, y) \<leftarrow> read_pos h g; Some (alloc h (Pos x y)) }"

text \<open>\<^verbatim>\<open>array.map(f)\<close> for a callback \<open>f\<close> that makes one new object per element.\<close>

fun map_clone :: "(store \<Rightarrow> nat \<Rightarrow> (store \<times> nat) option) \<Rightarrow> store \<Rightarrow> nat list \<Rightarrow>
    (store \<times> nat list) option" where
  "map_clone f h [] = Some (h, [])"
| "map_clone f h (r # rs) =
    do { (h1, r') \<leftarrow> f h r; (h2, rs') \<leftarrow> map_clone f h1 rs; Some (h2, r' # rs') }"

definition clone_array :: "(store \<Rightarrow> nat \<Rightarrow> (store \<times> nat) option) \<Rightarrow> store \<Rightarrow> nat \<Rightarrow>
    (store \<times> nat) option" where
  "clone_array f h a =
    do { rs \<leftarrow> read_arr h a; (h1, rs') \<leftarrow> map_clone f h rs; Some (alloc h1 (Arr rs')) }"

text \<open>The assignments \<^verbatim>\<open>newState.player = p\<close> and \<^verbatim>\<open>array[i] = b\<close>.\<close>

definition set_player :: "store \<Rightarrow> nat \<Rightarrow> nat \<Rightarrow> store option" where
  "set_player h s p =
    do { so \<leftarrow> read_state h s; Some (h[s := State (so\<lparr>ref_player := Some p\<rparr>)]) }"

definition set_player_p0 :: "store \<Rightarrow> nat \<Rightarrow> nat \<Rightarrow> store option" where
  "set_player_p0 h s p =
    do { so \<leftarrow> read_state_p0 h s; Some (h[s := State_p0 (so\<lparr>ref_player_p0 := Some p\<rparr>)]) }"

definition set_elem :: "store \<Rightarrow> nat \<Rightarrow> nat \<Rightarrow> nat \<Rightarrow> store option" where
  "set_elem h a i b = do { rs \<leftarrow> read_arr h a; Some (h[a := Arr (rs[i := b])]) }"

text \<open>The callback \<^verbatim>\<open>b => b.x === newX && b.y === newY\<close>, for the object that \<open>b\<close> refers to.\<close>

definition at_cell :: "store \<Rightarrow> int \<Rightarrow> int \<Rightarrow> nat \<Rightarrow> bool" where
  "at_cell h newX newY b =
    (case deref h b of
       Some (Box x y i) \<Rightarrow> x = newX \<and> y = newY
     | Some (Pos x y) \<Rightarrow> x = newX \<and> y = newY
     | _ \<Rightarrow> False)"

text \<open>\<^verbatim>\<open>applyMove\<close> of \<^verbatim>\<open>App.js\<close>: the store after the call and the reference it returns.\<close>

definition applyMove_store :: "store \<Rightarrow> nat \<Rightarrow> move \<Rightarrow> (store \<times> nat) option" where
  "applyMove_store h state mv =
    do {
      so \<leftarrow> read_state h state;
      p \<leftarrow> ref_player so;
      (h1, player') \<leftarrow> clone_pos h p;
      (h2, boxes') \<leftarrow> clone_array clone_box h1 (ref_boxes so);
      (h3, goals') \<leftarrow> clone_array clone_pos h2 (ref_goals so);
      (h4, newState) \<leftarrow> Some (alloc h3
         (State \<lparr>ref_player = Some player', ref_boxes = boxes', ref_goals = goals',
                 ref_walls = ref_walls so, val_width = val_width so,
                 val_height = val_height so, ref_map = ref_map so\<rparr>));
      ns \<leftarrow> read_state h4 newState;
      np \<leftarrow> ref_player ns;
      (x, y) \<leftarrow> read_pos h4 np;
      (dx, dy) \<leftarrow> Some (dirs mv);
      newX \<leftarrow> Some (x + dx);
      newY \<leftarrow> Some (y + dy);
      (h5, q) \<leftarrow> Some (alloc h4 (Pos newX newY));
      h6 \<leftarrow> set_player h5 newState q;
      ns' \<leftarrow> read_state h6 newState;
      bs \<leftarrow> read_arr h6 (ref_boxes ns');
      (case findIndex (at_cell h6 newX newY) bs of
         None \<Rightarrow> Some (h6, newState)
       | Some boxIndex \<Rightarrow>
           do {
             (bx, by, bid) \<leftarrow> read_box h6 (bs ! boxIndex);
             (h7, b) \<leftarrow> Some (alloc h6 (Box (newX + dx) (newY + dy) bid));
             h8 \<leftarrow> set_elem h7 (ref_boxes ns') boxIndex b;
             Some (h8, newState)
           })
    }"

text \<open>
  \<^verbatim>\<open>JSON.parse(JSON.stringify(state))\<close> for a state object of \<^verbatim>\<open>part_000\<close>: every object
  reachable from the state is built anew.
\<close>

definition clone_strs :: "store \<Rightarrow> nat \<Rightarrow> (store \<times> nat) option" where
  "clone_strs h a = do { ss \<leftarrow> read_strs h a; Some (alloc h (Strs ss)) }"

definition json_clone_store :: "store \<Rightarrow> nat \<Rightarrow> (store \<times> nat) option" where
  "json_clone_store h state =
    do {
      so \<leftarrow> read_state_p0 h state;
      (h1, player') \<leftarrow>
        (case ref_player_p0 so of
           None \<Rightarrow> Some (h, None)
         | Some p \<Rightarrow> do { (h', p') \<leftarrow> clone_pos h p; Some (h', Some p') });
      (h2, boxes') \<leftarrow> clone_array clone_pos h1 (ref_boxes_p0 so);
      (h3, goals') \<leftarrow> clone_array clone_pos h2 (ref_goals_p0 so);
      (h4, walls') \<leftarrow> clone_strs h3 (ref_walls_p0 so);
      Some (alloc h4
         (State_p0 \<lparr>ref_player_p0 = player', ref_boxes_p0 = boxes', ref_goals_p0 = goals',
                    ref_walls_p0 = walls', val_width_p0 = json_num (val_width_p0 so),
                    val_height_p0 = val_height_p0 so\<rparr>))
    }"

text \<open>\<^verbatim>\<open>applyMove\<close> of \<^verbatim>\<open>part_000\<close>.\<close>

definition applyMove_store_p0 :: "store \<Rightarrow> nat \<Rightarrow> move \<Rightarrow> (store \<times> nat) option" where
  "applyMove_store_p0 h state mv =
    do {
      (h1, newState) \<leftarrow> json_clone_store h state;
      ns \<leftarrow> read_state_p0 h1 newState;
      np \<leftarrow> ref_player_p0 ns;
      (x, y) \<leftarrow> read_pos h1 np;
      (dx, dy) \<leftarrow> Some (moves mv);
      newX \<leftarrow> Some (x + dx);
      newY \<leftarrow> Some (y + dy);
      bs \<leftarrow> read_arr h1 (ref_boxes_p0 ns);
      h3 \<leftarrow>
        (case findIndex (at_cell h1 newX newY) bs of
           None \<Rightarrow> Some h1
         | Some boxIndex \<Rightarrow>
             do {
               (h2, b) \<leftarrow> Some (alloc h1 (Pos (newX + dx) (newY + dy)));
               set_elem h2 (ref_boxes_p0 ns) boxIndex b
             });
      (h4, q) \<leftarrow> Some (alloc h3 (Pos newX newY));
      h5 \<leftarrow> set_player_p0 h4 newState q;
      Some (h5, newState)
    }"

subsection \<open>The value that a reference stands for\<close>

definition read_all :: "(store \<Rightarrow> nat \<Rightarrow> 'a option) \<Rightarrow> store \<Rightarrow> nat list \<Rightarrow> 'a list option" where
  "read_all rd h rs =
    (if list_all (\<lambda>r. rd h r \<noteq> None) rs then Some (map (\<lambda>r. the (rd h r)) rs) else None)"

definition pos_of :: "store \<Rightarrow> nat \<Rightarrow> pos option" where
  "pos_of h r = map_option (\<lambda>(x, y). \<lparr>pos_x = x, pos_y = y\<rparr>) (read_pos h r)"

definition box_of :: "store \<Rightarrow> nat \<Rightarrow> box option" where
  "box_of h r = map_option (\<lambda>(x, y, i). \<lparr>box_x = x, box_y = y, box_id = i\<rparr>) (read_box h r)"

definition player_of :: "store \<Rightarrow> nat option \<Rightarrow> pos option option" where
  "player_of h p = (case p of None \<Rightarrow> Some None | Some r \<Rightarrow> map_option Some (pos_of h r))"

definition array_of :: "(store \<Rightarrow> nat \<Rightarrow> 'a option) \<Rightarrow> store \<Rightarrow> nat \<Rightarrow> 'a list option" where
  "array_of rd h a = do { rs \<leftarrow> read_arr h a; read_all rd h rs }"

text \<open>The state that the state object at \<open>s\<close> stands for, if the store holds one there.\<close>

definition state_of :: "store \<Rightarrow> nat \<Rightarrow> state option" where
  "state_of h s =
    do {
      so \<leftarrow> read_state h s;
      p \<leftarrow> player_of h (ref_player so);
      bs \<leftarrow> array_of box_of h (ref_boxes so);
      gs \<leftarrow> array_of pos_of h (ref_goals so);
      ws \<leftarrow> read_keys h (ref_walls so);
      m \<leftarrow> read_strs h (ref_map so);
      Some \<lparr>player = p, boxes = bs, goals = gs, walls = ws, width = val_width so,
            height = val_height so, map_rows = m\<rparr>
    }"

definition state_of_p0 :: "store \<Rightarrow> nat \<Rightarrow> state_p0 option" where
  "state_of_p0 h s =
    do {
      so \<leftarrow> read_state_p0 h s;
      p \<leftarrow> player_of h (ref_player_p0 so);
      bs \<leftarrow> array_of pos_of h (ref_boxes_p0 so);
      gs \<leftarrow> array_of pos_of h (ref_goals_p0 so);
      ws \<leftarrow> read_strs h (ref_walls_p0 so);
      Some \<lparr>player_p0 = p, boxes_p0 = bs, goals_p0 = gs, walls_p0 = ws,
            width_p0 = val_width_p0 so, height_p0 = val_height_p0 so\<rparr>
    }"

text \<open>A store that holds the parsed map \<^verbatim>\<open>#@$.\<close> of each copy, the state objects last.\<close>

definition example_store :: store where
  "example_store =
    [Pos 1 0, Box 2 0 0, Arr [1], Pos 3 0, Arr [3], KeySet {''0,0''}, Strs [''#@$.''],
     State \<lparr>ref_player = Some 0, ref_boxes = 2, ref_goals = 4, ref_walls = 5, val_width = 4,
            val_height = 1, ref_map = 6\<rparr>,
     Pos 1 0, Pos 2 0, Arr [9], Pos 3 0, Arr [11], Strs [''0,0''],
     State_p0 \<lparr>ref_player_p0 = Some 8, ref_boxes_p0 = 10, ref_goals_p0 = 12, ref_walls_p0 = 13,
               val_width_p0 = Num 4, val_height_p0 = 1\<rparr>]"

section \<open>Maps\<close>

text \<open>The map of the documented scenario.\<close>

definition scenario :: "string list" where
  "scenario = [''######'', ''#    #'', ''# $@ #'', ''# .  #'', ''######'']"

text \<open>The level \<^verbatim>\<open>Easy\<close> of the array \<^verbatim>\<open>levels\<close> in \<^verbatim>\<open>App.js\<close>.\<close>

definition easy_level :: "string list" where
  "easy_level = [''######'', ''#   #'', ''# $ @ #'', ''# .   #'', ''#######'']"

section \<open>Vocabulary of the properties\<close>

text \<open>The cell of a box of \<^verbatim>\<open>App.js\<close>.\<close>

definition box_pos :: "box \<Rightarrow> pos" where
  "box_pos b = \<lparr>pos_x = box_x b, pos_y = box_y b\<rparr>"

text \<open>The cell next to \<open>c\<close> in direction \<open>mv\<close>: \<open>c\<close> plus the delta of \<open>mv\<close>.\<close>

definition shift :: "move \<Rightarrow> pos \<Rightarrow> pos" where
  "shift mv c = \<lparr>pos_x = pos_x c + fst (dirs mv), pos_y = pos_y c + snd (dirs mv)\<rparr>"

text \<open>
  The cells of a map in row-major order (top to bottom, left to right within a row), each with
  its column, its row and its symbol.  A row contributes the cells it has and no more.
\<close>

definition cells :: "string list \<Rightarrow> (nat \<times> nat \<times> char) list" where
  "cells rows =
    concat (map (\<lambda>y. map (\<lambda>x. (x, y, rows ! y ! x)) [0..<length (rows ! y)]) [0..<length rows])"

definition cell_pos :: "nat \<times> nat \<times> char \<Rightarrow> pos" where
  "cell_pos xyc = \<lparr>pos_x = int (fst xyc), pos_y = int (fst (snd xyc))\<rparr>"

definition is_mover :: "nat \<times> nat \<times> char \<Rightarrow> bool" where
  "is_mover xyc = (snd (snd xyc) = CHR ''@'' \<or> snd (snd xyc) = CHR ''+'')"

definition is_box :: "nat \<times> nat \<times> char \<Rightarrow> bool" where
  "is_box xyc = (snd (snd xyc) = CHR ''$'' \<or> snd (snd xyc) = CHR ''*'')"

definition is_goal :: "nat \<times> nat \<times> char \<Rightarrow> bool" where
  "is_goal xyc =
    (snd (snd xyc) = CHR ''.'' \<or> snd (snd xyc) = CHR ''*'' \<or> snd (snd xyc) = CHR ''+'')"

definition is_wall_cell :: "nat \<times> nat \<times> char \<Rightarrow> bool" where
  "is_wall_cell xyc = (snd (snd xyc) = CHR ''#'')"

text \<open>Whether a position is a cell of the map: inside a row, not beyond its end.\<close>

definition in_map :: "string list \<Rightarrow> pos \<Rightarrow> bool" where
  "in_map rows c =
    (0 \<le> pos_x c \<and> 0 \<le> pos_y c \<and> nat (pos_y c) < length rows \<and>
     nat (pos_x c) < length (rows ! nat (pos_y c)))"

text \<open>The positions of the mover symbols of a map, in row-major order.\<close>

definition movers :: "string list \<Rightarrow> pos list" where
  "movers rows = map cell_pos (filter is_mover (cells rows))"

text \<open>
  Whether a cell is a wall of a state.  \<^verbatim>\<open>renderCell\<close> of \<^verbatim>\<open>App.js\<close> asks
  \<^verbatim>\<open>state.walls.has(`${x},${y}`)\<close>; the board of \<^verbatim>\<open>part_000\<close> draws a wall on the cell of every
  key of the array \<^verbatim>\<open>walls\<close>.
\<close>

definition is_wall :: "state \<Rightarrow> pos \<Rightarrow> bool" where
  "is_wall st c = (pos_key (pos_x c) (pos_y c) \<in> walls st)"

definition is_wall_p0 :: "state_p0 \<Rightarrow> pos \<Rightarrow> bool" where
  "is_wall_p0 st c = (pos_key (pos_x c) (pos_y c) \<in> set (walls_p0 st))"

text \<open>
  Modelled from the spec: the legality of a direction, which the move generator of the search
  engine decides (section 4.2); the engine is part of the backend, whose code is not among
  the sources.  ``If \<open>target\<close> is a wall, the move is illegal.  If \<open>target\<close> holds a box,
  compute \<open>beyond\<close>.  If \<open>beyond\<close> is a wall or already holds another box, the move is
  illegal.''
\<close>

definition legal :: "state \<Rightarrow> move \<Rightarrow> bool" where
  "legal st mv =
    (case player st of
       None \<Rightarrow> False
     | Some p \<Rightarrow>
         \<not> is_wall st (shift mv p) \<and>
         (if shift mv p \<in> box_pos ` set (boxes st)
          then \<not> is_wall st (shift mv (shift mv p)) \<and>
               shift mv (shift mv p) \<notin> box_pos ` set (boxes st)
          else True))"

text \<open>Modelled from the spec: the same legality, for a state of \<^verbatim>\<open>part_000\<close>.\<close>

definition legal_p0 :: "state_p0 \<Rightarrow> move \<Rightarrow> bool" where
  "legal_p0 st mv =
    (case player_p0 st of
       None \<Rightarrow> False
     | Some p \<Rightarrow>
         \<not> is_wall_p0 st (shift mv p) \<and>
         (if shift mv p \<in> set (boxes_p0 st)
          then \<not> is_wall_p0 st (shift mv (shift mv p)) \<and>
               shift mv (shift mv p) \<notin> set (boxes_p0 st)
          else True))"

text \<open>
  Modelled from the spec: the states of the search (sections 3 and 4.5).  The initial state is
  the parsed one, and every further state is the successor of a state of the search under a
  direction that is legal for it; the search engine is part of the backend, whose code is
  not among the sources.  \<open>legal_replay st mvs\<close> follows the path \<open>mvs\<close> from \<open>st\<close> with
  \<^verbatim>\<open>applyMove\<close> of the sources and is \<open>None\<close> as soon as a direction of the path is not
  legal.
\<close>

fun legal_replay :: "state \<Rightarrow> move list \<Rightarrow> state option" where
  "legal_replay st [] = Some st"
| "legal_replay st (mv # mvs) =
    (if legal st mv
     then (case applyMove st mv of Inl e \<Rightarrow> None | Inr st' \<Rightarrow> legal_replay st' mvs)
     else None)"

text \<open>Modelled from the spec: the same states of the search, for \<^verbatim>\<open>part_000\<close>.\<close>

fun legal_replay_p0 :: "state_p0 \<Rightarrow> move list \<Rightarrow> state_p0 option" where
  "legal_replay_p0 st [] = Some st"
| "legal_replay_p0 st (mv # mvs) =
    (if legal_p0 st mv
     then (case applyMove_p0 st mv of Inl e \<Rightarrow> None | Inr st' \<Rightarrow> legal_replay_p0 st' mvs)
     else None)"

text \<open>
  Modelled from the spec: the at-least-one-box check of the validation component (section 4.6:
  ``checks: exactly one mover symbol, at least one box, at least one goal, all coordinates
  within bounds''), which rejects a definition that fails it.  The validation component is
  part of the backend, whose code is not among the sources.
\<close>

definition at_least_one_box :: "state \<Rightarrow> bool" where
  "at_least_one_box st = (boxes st \<noteq> [])"

text \<open>Modelled from the spec: the same check, for a state of \<^verbatim>\<open>part_000\<close>.\<close>

definition at_least_one_box_p0 :: "state_p0 \<Rightarrow> bool" where
  "at_least_one_box_p0 st = (boxes_p0 st \<noteq> [])"

text \<open>Reading a printed number back, to show that printing loses nothing.\<close>

definition digit_val :: "char \<Rightarrow> nat" where
  "digit_val c = of_char c - 48"

definition read_nat :: "string \<Rightarrow> nat" where
  "read_nat s = fold (\<lambda>c acc. 10 * acc + digit_val c) s 0"

section \<open>Basic facts\<close>

lemma pos_eq_iff: "(p = q) = (pos_x p = pos_x q \<and> pos_y p = pos_y q)" for p q :: pos
  by (cases p, cases q) simp

lemma pos_mem_iff:
  "(p \<in> set gs) = (\<exists>g\<in>set gs. pos_x g = pos_x p \<and> pos_y g = pos_y p)" for p :: pos
proof
  assume "p \<in> set gs"
  then show "\<exists>g\<in>set gs. pos_x g = pos_x p \<and> pos_y g = pos_y p" by blast
next
  assume "\<exists>g\<in>set gs. pos_x g = pos_x p \<and> pos_y g = pos_y p"
  then obtain g where g: "g \<in> set gs" "pos_x g = pos_x p" "pos_y g = pos_y p" by blast
  then have "g = p" by (simp add: pos_eq_iff)
  with g show "p \<in> set gs" by simp
qed

lemma pos_lit_mem_iff:
  "(\<lparr>pos_x = a, pos_y = b\<rparr> \<in> set gs) = (\<exists>g\<in>set gs. pos_x g = a \<and> pos_y g = b)"
  using pos_mem_iff[of "\<lparr>pos_x = a, pos_y = b\<rparr>" gs] by simp

lemma moves_eq_dirs: "moves mv = dirs mv"
  by (cases mv) simp_all

lemma findIndex_None: "(findIndex P bs = None) = (\<forall>b\<in>set bs. \<not> P b)"
  by (induction bs) (auto split: option.splits)

lemma findIndex_Some:
  "(findIndex P bs = Some i) = (i < length bs \<and> P (bs ! i) \<and> (\<forall>j<i. \<not> P (bs ! j)))"
proof (induction bs arbitrary: i)
  case Nil
  then show ?case by simp
next
  case (Cons b bs)
  show ?case
  proof (cases "P b")
    case True
    then show ?thesis by (cases i) auto
  next
    case False
    show ?thesis
    proof (cases i)
      case 0
      with False show ?thesis by (auto split: option.splits)
    next
      case (Suc k)
      have "(\<forall>j<Suc k. \<not> P ((b # bs) ! j)) = (\<forall>j<k. \<not> P (bs ! j))"
        using False by (auto simp: less_Suc_eq_0_disj)
      with False Suc Cons.IH[of k] show ?thesis
        by (auto split: option.splits)
    qed
  qed
qed

section \<open>The goal test\<close>

lemma isGoal_Some:
  "isGoal (Some st) = (\<forall>b\<in>set (boxes st). box_pos b \<in> set (goals st))"
  unfolding isGoal_def box_pos_def by (simp add: list_all_iff list_ex_iff pos_lit_mem_iff)

lemma isGoal_p0_Some:
  "isGoal_p0 (Some st) = (\<forall>b\<in>set (boxes_p0 st). b \<in> set (goals_p0 st))"
  unfolding isGoal_p0_def by (simp add: list_all_iff list_ex_iff pos_mem_iff[symmetric])

text \<open>
  Claim C3.  In both copies the goal test of a state is true if and only if every box of the
  state's box list lies on a cell of the state's goal list.
\<close>

theorem isGoal_iff_boxes_on_goals:
  "isGoal (Some st) = (\<forall>b\<in>set (boxes st). box_pos b \<in> set (goals st)) \<and>
   isGoal_p0 (Some st0) = (\<forall>b\<in>set (boxes_p0 st0). b \<in> set (goals_p0 st0))"
  using isGoal_Some isGoal_p0_Some by simp

theorem isGoal_iff_boxes_on_goals_witness:
  "isGoal (Some (projr (replay_map scenario [U, L, D]))) \<and>
   isGoal_p0 (Some (projr (replay_p0 (parseMap_p0 scenario) [U, L, D])))"
proof -
  have a: "\<forall>b\<in>set (boxes (projr (replay_map scenario [U, L, D]))).
      box_pos b \<in> set (goals (projr (replay_map scenario [U, L, D])))"
    by code_simp
  have b: "\<forall>b\<in>set (boxes_p0 (projr (replay_p0 (parseMap_p0 scenario) [U, L, D]))).
      b \<in> set (goals_p0 (projr (replay_p0 (parseMap_p0 scenario) [U, L, D])))"
    by code_simp
  from a b
    isGoal_iff_boxes_on_goals[of "projr (replay_map scenario [U, L, D])"
      "projr (replay_p0 (parseMap_p0 scenario) [U, L, D])"]
  show ?thesis by blast
qed

section \<open>The documented scenario, replayed\<close>

text \<open>
  Claim C1, as stated, fails.  Replaying \<open>[L, D, D]\<close> from the parsed scenario pushes the box
  one cell to the left, to column 1 of row 2, and walks the mover down to column 2 of row 4,
  a cell of the bottom wall; the goal at column 2 of row 3 stays empty and the goal test is
  false.
\<close>

theorem scenario_LDD_not_solved:
  "\<not> isl (replay_map scenario [L, D, D]) \<and>
   boxes (projr (replay_map scenario [L, D, D])) = [\<lparr>box_x = 1, box_y = 2, box_id = 0\<rparr>] \<and>
   goals (projr (replay_map scenario [L, D, D])) = [\<lparr>pos_x = 2, pos_y = 3\<rparr>] \<and>
   \<not> isGoal (Some (projr (replay_map scenario [L, D, D])))"
  by code_simp

text \<open>
  Claim C1, amended.  The parsed scenario has the mover at column 3 of row 2, the box at
  column 2 of row 2 and the goal at column 2 of row 3.  Replaying \<open>[L, D, D]\<close> leaves the box
  at column 1 of row 2 and the goal test false; replaying \<open>[U, L, D]\<close> leaves the box on the
  goal cell and the goal test true.
\<close>

theorem scenario_ULD_solved:
  "player (projr (parseMap scenario)) = Some \<lparr>pos_x = 3, pos_y = 2\<rparr> \<and>
   map box_pos (boxes (projr (parseMap scenario))) = [\<lparr>pos_x = 2, pos_y = 2\<rparr>] \<and>
   goals (projr (parseMap scenario)) = [\<lparr>pos_x = 2, pos_y = 3\<rparr>] \<and>
   map box_pos (boxes (projr (replay_map scenario [L, D, D]))) = [\<lparr>pos_x = 1, pos_y = 2\<rparr>] \<and>
   isGoal (Some (projr (replay_map scenario [L, D, D]))) = False \<and>
   \<not> isl (replay_map scenario [U, L, D]) \<and>
   map box_pos (boxes (projr (replay_map scenario [U, L, D]))) = [\<lparr>pos_x = 2, pos_y = 3\<rparr>] \<and>
   goals (projr (replay_map scenario [U, L, D])) = [\<lparr>pos_x = 2, pos_y = 3\<rparr>] \<and>
   isGoal (Some (projr (replay_map scenario [U, L, D]))) = True"
  by code_simp

section \<open>Move application on values\<close>

lemma applyMove_boxes_length:
  "applyMove st mv = Inr st' \<Longrightarrow> length (boxes st') = length (boxes st)"
  unfolding applyMove_def by (auto simp: Let_def split: option.splits prod.splits)

lemma applyMove_p0_boxes_length:
  "applyMove_p0 st mv = Inr st' \<Longrightarrow> length (boxes_p0 st') = length (boxes_p0 st)"
  unfolding applyMove_p0_def json_clone_def
  by (auto simp: Let_def split: option.splits prod.splits)

lemma applyMove_returns: "player st = Some p \<Longrightarrow> \<exists>st'. applyMove st mv = Inr st'"
  unfolding applyMove_def by (simp add: Let_def split: option.splits prod.splits)

lemma applyMove_p0_returns: "player_p0 st = Some p \<Longrightarrow> \<exists>st'. applyMove_p0 st mv = Inr st'"
  unfolding applyMove_p0_def json_clone_def by (simp add: Let_def split: option.splits prod.splits)

lemma box_at_iff: "(box_x b = pos_x c \<and> box_y b = pos_y c) = (box_pos b = c)"
  by (auto simp: box_pos_def pos_eq_iff)

lemma pos_at_iff: "(pos_x b = pos_x c \<and> pos_y b = pos_y c) = (b = c)" for b c :: pos
  by (auto simp: pos_eq_iff)

text \<open>\<^verbatim>\<open>applyMove\<close> of a state with a mover, written with the vocabulary.\<close>

lemma applyMove_unfold:
  "player st = Some p \<Longrightarrow>
   applyMove st mv =
     (case findIndex (\<lambda>b. box_pos b = shift mv p) (boxes st) of
        None \<Rightarrow> Inr (st\<lparr>player := Some (shift mv p)\<rparr>)
      | Some i \<Rightarrow> Inr (st\<lparr>player := Some (shift mv p),
           boxes := (boxes st)[i := \<lparr>box_x = pos_x (shift mv (shift mv p)),
                                     box_y = pos_y (shift mv (shift mv p)),
                                     box_id = box_id (boxes st ! i)\<rparr>]\<rparr>))"
  unfolding applyMove_def
  by (simp add: Let_def shift_def box_at_iff[symmetric] split: prod.splits option.splits)

lemma applyMove_p0_unfold:
  "player_p0 st = Some p \<Longrightarrow>
   applyMove_p0 st mv =
     (case findIndex (\<lambda>b. b = shift mv p) (boxes_p0 st) of
        None \<Rightarrow> Inr (st\<lparr>width_p0 := json_num (width_p0 st), player_p0 := Some (shift mv p)\<rparr>)
      | Some i \<Rightarrow> Inr (st\<lparr>width_p0 := json_num (width_p0 st), player_p0 := Some (shift mv p),
           boxes_p0 := (boxes_p0 st)[i := shift mv (shift mv p)]\<rparr>))"
  unfolding applyMove_p0_def json_clone_def
  by (simp add: Let_def shift_def moves_eq_dirs pos_at_iff[symmetric] split: prod.splits option.splits)

text \<open>
  Claim C2.  In both copies, applying a move \<open>mv\<close> to a state whose mover is at \<open>p\<close> returns
  a state whose mover is at \<open>p\<close> plus the delta of \<open>mv\<close> (the target).  If no box was on the
  target, the box list is unchanged.  If a box was on the target, the first such box of the
  list is relocated to the target plus the delta, and every other entry of the box list is
  what it was.
\<close>

theorem applyMove_effect:
  "(player st = Some p \<longrightarrow>
     (\<exists>st'. applyMove st mv = Inr st' \<and> player st' = Some (shift mv p) \<and>
        (shift mv p \<notin> box_pos ` set (boxes st) \<longrightarrow> boxes st' = boxes st) \<and>
        (shift mv p \<in> box_pos ` set (boxes st) \<longrightarrow>
           (\<exists>i<length (boxes st). box_pos (boxes st ! i) = shift mv p \<and>
              (\<forall>j<i. box_pos (boxes st ! j) \<noteq> shift mv p) \<and>
              length (boxes st') = length (boxes st) \<and>
              box_pos (boxes st' ! i) = shift mv (shift mv p) \<and>
              (\<forall>j<length (boxes st). j \<noteq> i \<longrightarrow> boxes st' ! j = boxes st ! j))))) \<and>
   (player_p0 st0 = Some p0 \<longrightarrow>
     (\<exists>st'. applyMove_p0 st0 mv = Inr st' \<and> player_p0 st' = Some (shift mv p0) \<and>
        (shift mv p0 \<notin> set (boxes_p0 st0) \<longrightarrow> boxes_p0 st' = boxes_p0 st0) \<and>
        (shift mv p0 \<in> set (boxes_p0 st0) \<longrightarrow>
           (\<exists>i<length (boxes_p0 st0). boxes_p0 st0 ! i = shift mv p0 \<and>
              (\<forall>j<i. boxes_p0 st0 ! j \<noteq> shift mv p0) \<and>
              length (boxes_p0 st') = length (boxes_p0 st0) \<and>
              boxes_p0 st' ! i = shift mv (shift mv p0) \<and>
              (\<forall>j<length (boxes_p0 st0). j \<noteq> i \<longrightarrow> boxes_p0 st' ! j = boxes_p0 st0 ! j)))))"
proof (intro conjI impI)
  assume pl: "player st = Some p"
  show "\<exists>st'. applyMove st mv = Inr st' \<and> player st' = Some (shift mv p) \<and>
        (shift mv p \<notin> box_pos ` set (boxes st) \<longrightarrow> boxes st' = boxes st) \<and>
        (shift mv p \<in> box_pos ` set (boxes st) \<longrightarrow>
           (\<exists>i<length (boxes st). box_pos (boxes st ! i) = shift mv p \<and>
              (\<forall>j<i. box_pos (boxes st ! j) \<noteq> shift mv p) \<and>
              length (boxes st') = length (boxes st) \<and>
              box_pos (boxes st' ! i) = shift mv (shift mv p) \<and>
              (\<forall>j<length (boxes st). j \<noteq> i \<longrightarrow> boxes st' ! j = boxes st ! j)))"
  proof (cases "findIndex (\<lambda>b. box_pos b = shift mv p) (boxes st)")
    case None
    then have "shift mv p \<notin> box_pos ` set (boxes st)"
      by (auto simp: findIndex_None)
    with None pl show ?thesis
      by (simp add: applyMove_unfold)
  next
    case (Some i)
    then have i: "i < length (boxes st)" "box_pos (boxes st ! i) = shift mv p"
      "\<forall>j<i. box_pos (boxes st ! j) \<noteq> shift mv p"
      by (simp_all add: findIndex_Some)
    from i have mem: "shift mv p \<in> box_pos ` set (boxes st)"
      by (metis imageI nth_mem)
    have new: "box_pos \<lparr>box_x = pos_x c, box_y = pos_y c, box_id = k\<rparr> = c" for c k
      by (simp add: box_pos_def)
    from Some pl i mem show ?thesis
      by (simp add: applyMove_unfold) (rule exI[of _ i], simp add: new)
  qed
next
  assume pl: "player_p0 st0 = Some p0"
  show "\<exists>st'. applyMove_p0 st0 mv = Inr st' \<and> player_p0 st' = Some (shift mv p0) \<and>
        (shift mv p0 \<notin> set (boxes_p0 st0) \<longrightarrow> boxes_p0 st' = boxes_p0 st0) \<and>
        (shift mv p0 \<in> set (boxes_p0 st0) \<longrightarrow>
           (\<exists>i<length (boxes_p0 st0). boxes_p0 st0 ! i = shift mv p0 \<and>
              (\<forall>j<i. boxes_p0 st0 ! j \<noteq> shift mv p0) \<and>
              length (boxes_p0 st') = length (boxes_p0 st0) \<and>
              boxes_p0 st' ! i = shift mv (shift mv p0) \<and>
              (\<forall>j<length (boxes_p0 st0). j \<noteq> i \<longrightarrow> boxes_p0 st' ! j = boxes_p0 st0 ! j)))"
  proof (cases "findIndex (\<lambda>b. b = shift mv p0) (boxes_p0 st0)")
    case None
    then have "shift mv p0 \<notin> set (boxes_p0 st0)"
      by (auto simp: findIndex_None)
    with None pl show ?thesis
      by (simp add: applyMove_p0_unfold)
  next
    case (Some i)
    then have i: "i < length (boxes_p0 st0)" "boxes_p0 st0 ! i = shift mv p0"
      "\<forall>j<i. boxes_p0 st0 ! j \<noteq> shift mv p0"
      by (simp_all add: findIndex_Some)
    from i have mem: "shift mv p0 \<in> set (boxes_p0 st0)"
      by (metis nth_mem)
    from Some pl i mem show ?thesis
      by (simp add: applyMove_p0_unfold) (rule exI[of _ i], simp)
  qed
qed

theorem applyMove_effect_witness:
  "(\<exists>st'. applyMove (projr (parseMap scenario)) L = Inr st' \<and>
      player st' = Some \<lparr>pos_x = 2, pos_y = 2\<rparr> \<and>
      (\<exists>i<length (boxes (projr (parseMap scenario))).
          box_pos (boxes st' ! i) = \<lparr>pos_x = 1, pos_y = 2\<rparr>)) \<and>
   (\<exists>st'. applyMove_p0 (parseMap_p0 scenario) L = Inr st' \<and>
      player_p0 st' = Some \<lparr>pos_x = 2, pos_y = 2\<rparr> \<and>
      (\<exists>i<length (boxes_p0 (parseMap_p0 scenario)).
          boxes_p0 st' ! i = \<lparr>pos_x = 1, pos_y = 2\<rparr>))"
proof -
  have pl: "player (projr (parseMap scenario)) = Some \<lparr>pos_x = 3, pos_y = 2\<rparr>"
    and pl0: "player_p0 (parseMap_p0 scenario) = Some \<lparr>pos_x = 3, pos_y = 2\<rparr>"
    and bx: "\<lparr>pos_x = 2, pos_y = 2\<rparr> \<in> box_pos ` set (boxes (projr (parseMap scenario)))"
    and bx0: "\<lparr>pos_x = 2, pos_y = 2\<rparr> \<in> set (boxes_p0 (parseMap_p0 scenario))"
    by code_simp+
  have sh: "shift L \<lparr>pos_x = 3, pos_y = 2\<rparr> = \<lparr>pos_x = 2, pos_y = 2\<rparr>"
    "shift L \<lparr>pos_x = 2, pos_y = 2\<rparr> = \<lparr>pos_x = 1, pos_y = 2\<rparr>"
    by (simp_all add: shift_def)
  from applyMove_effect[of "projr (parseMap scenario)" "\<lparr>pos_x = 3, pos_y = 2\<rparr>" L
      "parseMap_p0 scenario" "\<lparr>pos_x = 3, pos_y = 2\<rparr>"] pl pl0 bx bx0
  show ?thesis
    unfolding sh by blast
qed

text \<open>
  Claim C7.  In both copies, a move applied to a state with a mover returns a state, and the
  box list of every returned state has the length of the box list of the input state.
\<close>

theorem applyMove_keeps_box_count:
  "(player st \<noteq> None \<longrightarrow> (\<exists>st'. applyMove st mv = Inr st')) \<and>
   (\<forall>st'. applyMove st mv = Inr st' \<longrightarrow> length (boxes st') = length (boxes st)) \<and>
   (player_p0 st0 \<noteq> None \<longrightarrow> (\<exists>st'. applyMove_p0 st0 mv = Inr st')) \<and>
   (\<forall>st'. applyMove_p0 st0 mv = Inr st' \<longrightarrow> length (boxes_p0 st') = length (boxes_p0 st0))"
  using applyMove_returns[of st _ mv] applyMove_p0_returns[of st0 _ mv]
    applyMove_boxes_length[of st mv] applyMove_p0_boxes_length[of st0 mv]
  by auto

theorem applyMove_keeps_box_count_witness:
  "(\<exists>st'. applyMove (projr (parseMap scenario)) L = Inr st' \<and> length (boxes st') = 1) \<and>
   (\<exists>st'. applyMove_p0 (parseMap_p0 scenario) L = Inr st' \<and> length (boxes_p0 st') = 1)"
proof -
  have pl: "player (projr (parseMap scenario)) \<noteq> None"
    and pl0: "player_p0 (parseMap_p0 scenario) \<noteq> None"
    and n: "length (boxes (projr (parseMap scenario))) = 1"
    and n0: "length (boxes_p0 (parseMap_p0 scenario)) = 1"
    by code_simp+
  from applyMove_keeps_box_count[of "projr (parseMap scenario)" L "parseMap_p0 scenario"]
    pl pl0 n n0
  show ?thesis by auto
qed

section \<open>The parsers\<close>

lemma upt_0_Suc_map: "[0..<Suc n] = 0 # map Suc [0..<n]"
  by (simp add: upt_conv_Cons map_Suc_upt del: upt_Suc)

lemma scan_row_fold:
  "scan_row y x cs a =
     fold (\<lambda>(x, y, c). scan_cell x y c) (map (\<lambda>i. (x + i, y, cs ! i)) [0..<length cs]) a"
proof (induction cs arbitrary: x a)
  case Nil
  then show ?case by simp
next
  case (Cons c cs)
  have "map (\<lambda>i. (x + i, y, (c # cs) ! i)) [0..<length (c # cs)] =
        (x, y, c) # map (\<lambda>i. (Suc x + i, y, cs ! i)) [0..<length cs]"
    by (simp add: upt_0_Suc_map comp_def del: upt_Suc)
  then show ?case using Cons.IH[of "Suc x"] by simp
qed

lemma scan_rows_fold:
  "scan_rows y rs a =
     fold (\<lambda>(x, y, c). scan_cell x y c)
       (concat (map (\<lambda>j. map (\<lambda>i. (i, y + j, rs ! j ! i)) [0..<length (rs ! j)]) [0..<length rs])) a"
proof (induction rs arbitrary: y a)
  case Nil
  then show ?case by simp
next
  case (Cons r rs)
  have "concat (map (\<lambda>j. map (\<lambda>i. (i, y + j, (r # rs) ! j ! i)) [0..<length ((r # rs) ! j)])
           [0..<length (r # rs)]) =
        map (\<lambda>i. (0 + i, y, r ! i)) [0..<length r] @
        concat (map (\<lambda>j. map (\<lambda>i. (i, Suc y + j, rs ! j ! i)) [0..<length (rs ! j)]) [0..<length rs])"
    by (simp add: upt_0_Suc_map comp_def del: upt_Suc)
  then show ?case using Cons.IH[of "Suc y"] by (simp add: scan_row_fold)
qed

lemma scan_rows_cells:
  "scan_rows 0 rows a = fold (\<lambda>(x, y, c). scan_cell x y c) (cells rows) a"
  by (simp add: scan_rows_fold cells_def)

lemma fold_scan_player:
  "scan_player (fold (\<lambda>(x, y, c). scan_cell x y c) cs a) =
     (if filter is_mover cs = [] then scan_player a
      else Some (last (map cell_pos (filter is_mover cs))))"
proof (induction cs arbitrary: a)
  case Nil
  then show ?case by simp
next
  case (Cons c cs)
  obtain x y ch where c: "c = (x, y, ch)" by (cases c) auto
  have 1: "scan_player (scan_cell x y ch a) =
     (if is_mover c then Some (cell_pos c) else scan_player a)"
    by (simp add: scan_cell_def Let_def is_mover_def cell_pos_def c)
  show ?case using Cons.IH[of "scan_cell x y ch a"] 1 by (simp add: c)
qed

lemma row_p0_fold:
  "row_p0 y x cs a =
     fold (\<lambda>(x, y, c). cell_p0 x y c) (map (\<lambda>i. (x + i, y, cs ! i)) [0..<length cs]) a"
proof (induction cs arbitrary: x a)
  case Nil
  then show ?case by simp
next
  case (Cons c cs)
  have "map (\<lambda>i. (x + i, y, (c # cs) ! i)) [0..<length (c # cs)] =
        (x, y, c) # map (\<lambda>i. (Suc x + i, y, cs ! i)) [0..<length cs]"
    by (simp add: upt_0_Suc_map comp_def del: upt_Suc)
  then show ?case using Cons.IH[of "Suc x"] by simp
qed

lemma rows_p0_fold:
  "rows_p0 y rs a =
     fold (\<lambda>(x, y, c). cell_p0 x y c)
       (concat (map (\<lambda>j. map (\<lambda>i. (i, y + j, rs ! j ! i)) [0..<length (rs ! j)]) [0..<length rs])) a"
proof (induction rs arbitrary: y a)
  case Nil
  then show ?case by simp
next
  case (Cons r rs)
  have "concat (map (\<lambda>j. map (\<lambda>i. (i, y + j, (r # rs) ! j ! i)) [0..<length ((r # rs) ! j)])
           [0..<length (r # rs)]) =
        map (\<lambda>i. (0 + i, y, r ! i)) [0..<length r] @
        concat (map (\<lambda>j. map (\<lambda>i. (i, Suc y + j, rs ! j ! i)) [0..<length (rs ! j)]) [0..<length rs])"
    by (simp add: upt_0_Suc_map comp_def del: upt_Suc)
  then show ?case using Cons.IH[of "Suc y"] by (simp add: row_p0_fold)
qed

lemma rows_p0_cells:
  "rows_p0 0 rows a = fold (\<lambda>(x, y, c). cell_p0 x y c) (cells rows) a"
  by (simp add: rows_p0_fold cells_def)

lemma fold_cell_p0_player:
  "player_p0 (fold (\<lambda>(x, y, c). cell_p0 x y c) cs a) =
     (if filter is_mover cs = [] then player_p0 a
      else Some (last (map cell_pos (filter is_mover cs))))"
proof (induction cs arbitrary: a)
  case Nil
  then show ?case by simp
next
  case (Cons c cs)
  obtain x y ch where c: "c = (x, y, ch)" by (cases c) auto
  have 1: "player_p0 (cell_p0 x y ch a) =
     (if is_mover c then Some (cell_pos c) else player_p0 a)"
    by (simp add: cell_p0_def Let_def is_mover_def cell_pos_def c)
  show ?case using Cons.IH[of "cell_p0 x y ch a"] 1 by (simp add: c)
qed

lemma fold_cell_p0_height:
  "height_p0 (fold (\<lambda>(x, y, c). cell_p0 x y c) cs a) = height_p0 a \<and>
   width_p0 (fold (\<lambda>(x, y, c). cell_p0 x y c) cs a) = width_p0 a"
proof (induction cs arbitrary: a)
  case Nil
  then show ?case by simp
next
  case (Cons c cs)
  obtain x y ch where c: "c = (x, y, ch)" by (cases c) auto
  have 1: "height_p0 (cell_p0 x y ch a) = height_p0 a \<and> width_p0 (cell_p0 x y ch a) = width_p0 a"
    by (simp add: cell_p0_def Let_def)
  show ?case using Cons.IH[of "cell_p0 x y ch a"] 1 by (simp add: c)
qed

lemma scan_rows_player:
  "scan_player (scan_rows 0 rows scan_init) =
     (if movers rows = [] then None else Some (last (movers rows)))"
  by (simp add: scan_rows_cells fold_scan_player movers_def scan_init_def)

lemma parseMap_player:
  "rows \<noteq> [] \<Longrightarrow>
   \<exists>st. parseMap rows = Inr st \<and>
     player st = (if movers rows = [] then None else Some (last (movers rows)))"
  using scan_rows_player[of rows]
  by (cases rows) (simp_all add: parseMap_def Let_def del: scan_rows.simps)

lemma parseMap_p0_player:
  "player_p0 (parseMap_p0 rows) = (if movers rows = [] then None else Some (last (movers rows)))"
  by (simp add: parseMap_p0_def rows_p0_cells fold_cell_p0_player movers_def)

lemma movers_Nil: "movers [] = []"
  by (simp add: movers_def cells_def)

text \<open>
  Claim C9.  For a map with two or more mover symbols both parsers return, and the recorded
  mover is the last mover symbol in row-major order.  For a map without a mover symbol both
  parsers return a state whose mover is \<^verbatim>\<open>null\<close>; a map has at least one row (the parser of
  \<^verbatim>\<open>part_000\<close> does not need that).
\<close>

theorem parseMap_last_mover:
  "(2 \<le> length (movers rows) \<longrightarrow>
      (\<exists>st. parseMap rows = Inr st \<and> player st = Some (last (movers rows))) \<and>
      player_p0 (parseMap_p0 rows) = Some (last (movers rows))) \<and>
   (movers rows = [] \<longrightarrow>
      (rows \<noteq> [] \<longrightarrow> (\<exists>st. parseMap rows = Inr st \<and> player st = None)) \<and>
      player_p0 (parseMap_p0 rows) = None)"
proof (intro conjI impI)
  assume two: "2 \<le> length (movers rows)"
  then have ne: "movers rows \<noteq> []" by auto
  then have "rows \<noteq> []" using movers_Nil by auto
  from parseMap_player[OF this] ne
  show "\<exists>st. parseMap rows = Inr st \<and> player st = Some (last (movers rows))" by simp
  from ne show "player_p0 (parseMap_p0 rows) = Some (last (movers rows))"
    by (simp add: parseMap_p0_player)
next
  assume none: "movers rows = []" 
  then show "player_p0 (parseMap_p0 rows) = None" by (simp add: parseMap_p0_player)
  assume "rows \<noteq> []"
  from parseMap_player[OF this] none
  show "\<exists>st. parseMap rows = Inr st \<and> player st = None" by simp
qed

theorem parseMap_last_mover_witness:
  "length (movers [''@ +'', '' @'']) = 3 \<and>
   last (movers [''@ +'', '' @'']) = \<lparr>pos_x = 1, pos_y = 1\<rparr> \<and>
   player (projr (parseMap [''@ +'', '' @''])) = Some \<lparr>pos_x = 1, pos_y = 1\<rparr> \<and>
   player_p0 (parseMap_p0 [''@ +'', '' @'']) = Some \<lparr>pos_x = 1, pos_y = 1\<rparr> \<and>
   movers [''  '', ''#''] = [] \<and>
   player (projr (parseMap [''  '', ''#''])) = None \<and>
   player_p0 (parseMap_p0 [''  '', ''#'']) = None"
proof -
  have a: "length (movers [''@ +'', '' @'']) = 3" 
    and b: "last (movers [''@ +'', '' @'']) = \<lparr>pos_x = 1, pos_y = 1\<rparr>"
    and c: "movers [''  '', ''#''] = []"
    by code_simp+
  from a b parseMap_last_mover[of "[''@ +'', '' @'']"]
  have 1: "player (projr (parseMap [''@ +'', '' @''])) = Some \<lparr>pos_x = 1, pos_y = 1\<rparr> \<and>
   player_p0 (parseMap_p0 [''@ +'', '' @'']) = Some \<lparr>pos_x = 1, pos_y = 1\<rparr>"
    by auto
  from c parseMap_last_mover[of "[''  '', ''#'']"]
  have 2: "player (projr (parseMap [''  '', ''#''])) = None \<and>
   player_p0 (parseMap_p0 [''  '', ''#'']) = None"
    by auto
  from a b c 1 2 show ?thesis by simp
qed

section \<open>Further properties of the goal test and the parsers\<close>

text \<open>
  Claim C10.  In both copies the goal test of a state with an empty box list is true, although
  such a state fails the at-least-one-box check of the validation component.
\<close>

theorem isGoal_no_boxes:
  "(boxes st = [] \<longrightarrow> isGoal (Some st) \<and> \<not> at_least_one_box st) \<and>
   (boxes_p0 st0 = [] \<longrightarrow> isGoal_p0 (Some st0) \<and> \<not> at_least_one_box_p0 st0)"
  by (simp add: isGoal_def isGoal_p0_def at_least_one_box_def at_least_one_box_p0_def)

theorem isGoal_no_boxes_witness:
  "boxes (projr (parseMap [''#@.#''])) = [] \<and> isGoal (Some (projr (parseMap [''#@.#'']))) \<and>
   boxes_p0 (parseMap_p0 [''#@.#'']) = [] \<and> isGoal_p0 (Some (parseMap_p0 [''#@.#'']))"
proof -
  have a: "boxes (projr (parseMap [''#@.#''])) = []"
    and b: "boxes_p0 (parseMap_p0 [''#@.#'']) = []"
    by code_simp+
  from a b isGoal_no_boxes[of "projr (parseMap [''#@.#''])" "parseMap_p0 [''#@.#'']"]
  show ?thesis by simp
qed

text \<open>
  Claim C5, as stated, fails.  On a map with two mover symbols and on a map with none, both
  parsers return an ordinary state: the mover of the first is the second symbol, the mover of
  the second is \<^verbatim>\<open>null\<close>.
\<close>

theorem parseMap_two_movers_returns:
  "length (movers [''@@'']) = 2 \<and>
   \<not> isl (parseMap [''@@'']) \<and>
   player (projr (parseMap [''@@''])) = Some \<lparr>pos_x = 1, pos_y = 0\<rparr> \<and>
   player_p0 (parseMap_p0 [''@@'']) = Some \<lparr>pos_x = 1, pos_y = 0\<rparr> \<and>
   movers [''# #''] = [] \<and>
   \<not> isl (parseMap [''# #'']) \<and>
   player (projr (parseMap [''# #''])) = None \<and>
   player_p0 (parseMap_p0 [''# #'']) = None"
  by code_simp

text \<open>
  Claim C5, amended.  Neither parser looks at the number of mover symbols.  The parser of
  \<^verbatim>\<open>App.js\<close> returns a state for every map with at least one row, and its only failure is
  the TypeError on the map without rows; the parser of \<^verbatim>\<open>part_000\<close> returns a state for
  every map.  The mover of the returned state is \<^verbatim>\<open>null\<close> when the map has no mover symbol
  and the last mover symbol in row-major order otherwise.
\<close>

theorem parseMap_returns_definition:
  "(rows \<noteq> [] \<longrightarrow>
      (\<exists>st. parseMap rows = Inr st \<and> height st = length rows \<and> map_rows st = rows \<and>
         player st = (if movers rows = [] then None else Some (last (movers rows))))) \<and>
   (\<forall>e. parseMap rows = Inl e \<longrightarrow> rows = [] \<and> e = TypeError) \<and>
   height_p0 (parseMap_p0 rows) = length rows \<and>
   player_p0 (parseMap_p0 rows) = (if movers rows = [] then None else Some (last (movers rows)))"
proof (intro conjI impI allI)
  assume ne: "rows \<noteq> []"
  with scan_rows_player[of rows]
  show "\<exists>st. parseMap rows = Inr st \<and> height st = length rows \<and> map_rows st = rows \<and>
         player st = (if movers rows = [] then None else Some (last (movers rows)))"
    by (cases rows) (simp_all add: parseMap_def Let_def del: scan_rows.simps)
next
  fix e assume "parseMap rows = Inl e"
  then show "rows = []" by (cases rows) (simp_all add: parseMap_def Let_def del: scan_rows.simps)
  show "e = TypeError" by (cases e) simp
next
  show "height_p0 (parseMap_p0 rows) = length rows"
    by (simp add: parseMap_p0_def rows_p0_cells fold_cell_p0_height)
  show "player_p0 (parseMap_p0 rows) = (if movers rows = [] then None else Some (last (movers rows)))"
    by (rule parseMap_p0_player)
qed

theorem parseMap_returns_definition_witness:
  "(\<exists>st. parseMap [''@@''] = Inr st \<and> height st = 1 \<and> player st = Some \<lparr>pos_x = 1, pos_y = 0\<rparr>)"
proof -
  have a: "movers [''@@''] = [\<lparr>pos_x = 0, pos_y = 0\<rparr>, \<lparr>pos_x = 1, pos_y = 0\<rparr>]"
    by code_simp
  from parseMap_returns_definition[of "[''@@'']"] a show ?thesis by auto
qed

text \<open>
  Claim C6 at the level \<^verbatim>\<open>Easy\<close> of \<^verbatim>\<open>App.js\<close>, whose first row has 6 cells and whose
  longest row has 7: the parser of \<^verbatim>\<open>App.js\<close> records the width 6, the length of the first
  row, where the parser of \<^verbatim>\<open>part_000\<close> records the maximum 7.
\<close>

theorem parseMap_easy_level_width:
  "\<not> isl (parseMap easy_level) \<and>
   width (projr (parseMap easy_level)) = 6 \<and>
   Max (set (map length easy_level)) = 7 \<and>
   width_p0 (parseMap_p0 easy_level) = Num 7"
  by code_simp


section \<open>What the parsers record\<close>

subsection \<open>A key determines its cell\<close>

lemma digit_val_digit_char: "d < 10 \<Longrightarrow> digit_val (digit_char d) = d"
proof -
  assume "d < 10"
  then have "d \<in> {0, 1, 2, 3, 4, 5, 6, 7, 8, 9}" by auto
  then show ?thesis by (auto simp: digit_val_def digit_char_def)
qed

lemma digit_char_not_sep: "d < 10 \<Longrightarrow> digit_char d \<noteq> CHR '','' \<and> digit_char d \<noteq> CHR ''-''"
proof -
  assume "d < 10"
  then have "d \<in> {0, 1, 2, 3, 4, 5, 6, 7, 8, 9}" by auto
  then show ?thesis by (auto simp: digit_char_def)
qed

lemma read_nat_snoc: "read_nat (s @ [c]) = 10 * read_nat s + digit_val c"
  by (simp add: read_nat_def)

lemma read_show_nat: "read_nat (show_nat n) = n"
proof (induction n rule: show_nat.induct)
  case (1 n)
  show ?case
  proof (cases "n < 10")
    case True
    then show ?thesis
      by (simp add: show_nat.simps[of n] read_nat_def digit_val_digit_char)
  next
    case False
    with 1 have "read_nat (show_nat (n div 10)) = n div 10" by simp
    with False show ?thesis
      by (simp add: show_nat.simps[of n] read_nat_snoc digit_val_digit_char)
  qed
qed

lemma show_nat_inj: "show_nat m = show_nat n \<Longrightarrow> m = n"
  by (metis read_show_nat)

lemma show_nat_chars: "c \<in> set (show_nat n) \<Longrightarrow> c \<noteq> CHR '','' \<and> c \<noteq> CHR ''-''"
proof (induction n rule: show_nat.induct)
  case (1 n)
  show ?case
  proof (cases "n < 10")
    case True
    with 1(2) show ?thesis
      using digit_char_not_sep[of n] by (simp add: show_nat.simps[of n])
  next
    case False
    with 1 show ?thesis
      using digit_char_not_sep[of "n mod 10"] by (auto simp: show_nat.simps[of n])
  qed
qed

lemma show_nat_nonempty: "show_nat n \<noteq> []"
  by (subst show_nat.simps) simp

lemma show_int_inj: "show_int i = show_int j \<Longrightarrow> i = j"
proof -
  assume e: "show_int i = show_int j"
  have hd_nat: "hd (show_nat n) \<noteq> CHR ''-''" for n
    using show_nat_chars[of "hd (show_nat n)" n] show_nat_nonempty[of n] by simp
  show ?thesis
  proof (cases "i < 0"; cases "j < 0")
    assume "i < 0" "j < 0"
    with e have "nat (- i) = nat (- j)" by (simp add: show_int_def show_nat_inj)
    with \<open>i < 0\<close> \<open>j < 0\<close> show ?thesis by simp
  next
    assume "i < 0" "\<not> j < 0"
    with e have "CHR ''-'' # show_nat (nat (- i)) = show_nat (nat j)" by (simp add: show_int_def)
    then have "hd (show_nat (nat j)) = CHR ''-''" by (metis list.sel(1))
    with hd_nat show ?thesis by simp
  next
    assume "\<not> i < 0" "j < 0"
    with e have "show_nat (nat i) = CHR ''-'' # show_nat (nat (- j))" by (simp add: show_int_def)
    then have "hd (show_nat (nat i)) = CHR ''-''" by (metis list.sel(1))
    with hd_nat show ?thesis by simp
  next
    assume "\<not> i < 0" "\<not> j < 0"
    with e have "nat i = nat j" by (simp add: show_int_def show_nat_inj)
    with \<open>\<not> i < 0\<close> \<open>\<not> j < 0\<close> show ?thesis by simp
  qed
qed

lemma show_int_no_comma: "CHR '','' \<notin> set (show_int i)"
  using show_nat_chars by (auto simp: show_int_def)

lemma split_at_sep:
  assumes "a @ c # b = a' @ c # b'" and "c \<notin> set a" and "c \<notin> set a'"
  shows "a = a' \<and> b = b'"
  using assms
proof (induction a arbitrary: a')
  case Nil
  then show ?case by (cases a') auto
next
  case (Cons x a)
  then show ?case by (cases a') auto
qed

lemma pos_key_inj: "pos_key x y = pos_key x' y' \<Longrightarrow> x = x' \<and> y = y'"
proof -
  assume "pos_key x y = pos_key x' y'"
  then have "show_int x @ CHR '','' # show_int y = show_int x' @ CHR '','' # show_int y'"
    by (simp add: pos_key_def)
  then have "show_int x = show_int x' \<and> show_int y = show_int y'"
    by (rule split_at_sep) (rule show_int_no_comma)+
  then show ?thesis by (simp add: show_int_inj)
qed

subsection \<open>The recorded cells\<close>

lemma cells_iff:
  "((x, y, c) \<in> set (cells rows)) = (y < length rows \<and> x < length (rows ! y) \<and> c = rows ! y ! x)"
proof
  assume "(x, y, c) \<in> set (cells rows)"
  then show "y < length rows \<and> x < length (rows ! y) \<and> c = rows ! y ! x"
    by (auto simp: cells_def)
next
  assume a: "y < length rows \<and> x < length (rows ! y) \<and> c = rows ! y ! x"
  then have "(x, y, c) \<in> (\<lambda>x. (x, y, rows ! y ! x)) ` {0..<length (rows ! y)}"
    by (intro image_eqI[of _ _ x]) simp_all
  with a show "(x, y, c) \<in> set (cells rows)"
    by (simp add: cells_def) (rule bexI[of _ y], simp_all)
qed

lemma cell_in_map: "xyc \<in> set (cells rows) \<Longrightarrow> in_map rows (cell_pos xyc)"
  by (cases xyc) (simp add: cells_iff in_map_def cell_pos_def)

lemma fold_scan_goals:
  "scan_goals (fold (\<lambda>(x, y, c). scan_cell x y c) cs a) =
     scan_goals a @ map cell_pos (filter is_goal cs)"
proof (induction cs arbitrary: a)
  case Nil
  then show ?case by simp
next
  case (Cons c cs)
  obtain x y ch where c: "c = (x, y, ch)" by (cases c) auto
  have 1: "scan_goals (scan_cell x y ch a) =
     (if is_goal c then scan_goals a @ [cell_pos c] else scan_goals a)"
    by (simp add: scan_cell_def Let_def is_goal_def cell_pos_def c)
  show ?case using Cons.IH[of "scan_cell x y ch a"] 1 by (simp add: c)
qed

lemma fold_scan_boxes:
  "map box_pos (scan_boxes (fold (\<lambda>(x, y, c). scan_cell x y c) cs a)) =
     map box_pos (scan_boxes a) @ map cell_pos (filter is_box cs)"
proof (induction cs arbitrary: a)
  case Nil
  then show ?case by simp
next
  case (Cons c cs)
  obtain x y ch where c: "c = (x, y, ch)" by (cases c) auto
  have 1: "map box_pos (scan_boxes (scan_cell x y ch a)) =
     (if is_box c then map box_pos (scan_boxes a) @ [cell_pos c] else map box_pos (scan_boxes a))"
    by (simp add: scan_cell_def Let_def is_box_def cell_pos_def box_pos_def c)
  show ?case using Cons.IH[of "scan_cell x y ch a"] 1 by (simp add: c)
qed

lemma fold_scan_walls:
  "scan_walls (fold (\<lambda>(x, y, c). scan_cell x y c) cs a) =
     scan_walls a \<union>
     (\<lambda>xyc. pos_key (int (fst xyc)) (int (fst (snd xyc)))) ` {xyc \<in> set cs. is_wall_cell xyc}"
proof (induction cs arbitrary: a)
  case Nil
  then show ?case by simp
next
  case (Cons c cs)
  obtain x y ch where c: "c = (x, y, ch)" by (cases c) auto
  have 1: "scan_walls (scan_cell x y ch a) =
     (if is_wall_cell c then insert (pos_key (int x) (int y)) (scan_walls a) else scan_walls a)"
    by (simp add: scan_cell_def Let_def is_wall_cell_def c)
  have 2: "{xyc \<in> set (c # cs). is_wall_cell xyc} =
     (if is_wall_cell c then insert c {xyc \<in> set cs. is_wall_cell xyc}
      else {xyc \<in> set cs. is_wall_cell xyc})"
    by auto
  show ?case unfolding 2 using Cons.IH[of "scan_cell x y ch a"] 1 by (simp add: c)
qed

lemma fold_cell_p0_goals:
  "goals_p0 (fold (\<lambda>(x, y, c). cell_p0 x y c) cs a) =
     goals_p0 a @ map cell_pos (filter is_goal cs)"
proof (induction cs arbitrary: a)
  case Nil
  then show ?case by simp
next
  case (Cons c cs)
  obtain x y ch where c: "c = (x, y, ch)" by (cases c) auto
  have 1: "goals_p0 (cell_p0 x y ch a) =
     (if is_goal c then goals_p0 a @ [cell_pos c] else goals_p0 a)"
    by (simp add: cell_p0_def Let_def is_goal_def cell_pos_def c)
  show ?case using Cons.IH[of "cell_p0 x y ch a"] 1 by (simp add: c)
qed

lemma fold_cell_p0_boxes:
  "boxes_p0 (fold (\<lambda>(x, y, c). cell_p0 x y c) cs a) =
     boxes_p0 a @ map cell_pos (filter is_box cs)"
proof (induction cs arbitrary: a)
  case Nil
  then show ?case by simp
next
  case (Cons c cs)
  obtain x y ch where c: "c = (x, y, ch)" by (cases c) auto
  have 1: "boxes_p0 (cell_p0 x y ch a) =
     (if is_box c then boxes_p0 a @ [cell_pos c] else boxes_p0 a)"
    by (simp add: cell_p0_def Let_def is_box_def cell_pos_def c)
  show ?case using Cons.IH[of "cell_p0 x y ch a"] 1 by (simp add: c)
qed

lemma fold_cell_p0_walls:
  "walls_p0 (fold (\<lambda>(x, y, c). cell_p0 x y c) cs a) =
     walls_p0 a @
     map (\<lambda>xyc. pos_key (int (fst xyc)) (int (fst (snd xyc)))) (filter is_wall_cell cs)"
proof (induction cs arbitrary: a)
  case Nil
  then show ?case by simp
next
  case (Cons c cs)
  obtain x y ch where c: "c = (x, y, ch)" by (cases c) auto
  have 1: "walls_p0 (cell_p0 x y ch a) =
     (if is_wall_cell c then walls_p0 a @ [pos_key (int x) (int y)] else walls_p0 a)"
    by (simp add: cell_p0_def Let_def is_wall_cell_def c)
  show ?case using Cons.IH[of "cell_p0 x y ch a"] 1 by (simp add: c)
qed

text \<open>What the parsers record, cell by cell.\<close>

lemma parseMap_p0_records:
  "boxes_p0 (parseMap_p0 rows) = map cell_pos (filter is_box (cells rows))"
  "goals_p0 (parseMap_p0 rows) = map cell_pos (filter is_goal (cells rows))"
  "walls_p0 (parseMap_p0 rows) =
     map (\<lambda>xyc. pos_key (int (fst xyc)) (int (fst (snd xyc)))) (filter is_wall_cell (cells rows))"
  "width_p0 (parseMap_p0 rows) = math_max (map length rows)"
  "height_p0 (parseMap_p0 rows) = length rows"
  by (simp_all add: parseMap_p0_def rows_p0_cells fold_cell_p0_boxes fold_cell_p0_goals
      fold_cell_p0_walls fold_cell_p0_height)

lemma parseMap_records:
  assumes "parseMap rows = Inr st"
  shows "map box_pos (boxes st) = map cell_pos (filter is_box (cells rows))"
    and "goals st = map cell_pos (filter is_goal (cells rows))"
    and "walls st = (\<lambda>xyc. pos_key (int (fst xyc)) (int (fst (snd xyc)))) `
           {xyc \<in> set (cells rows). is_wall_cell xyc}"
    and "width st = length (hd rows)" and "height st = length rows" and "rows \<noteq> []"
proof -
  from assms obtain r rs where rows: "rows = r # rs"
    by (cases rows) (simp_all add: parseMap_def Let_def del: scan_rows.simps)
  with assms have st: "st = \<lparr>player = scan_player (scan_rows 0 rows scan_init),
      boxes = scan_boxes (scan_rows 0 rows scan_init),
      goals = scan_goals (scan_rows 0 rows scan_init),
      walls = scan_walls (scan_rows 0 rows scan_init), width = length r,
      height = length rows, map_rows = rows\<rparr>"
    by (simp add: parseMap_def Let_def del: scan_rows.simps)
  show "map box_pos (boxes st) = map cell_pos (filter is_box (cells rows))"
    by (simp add: st scan_rows_cells fold_scan_boxes scan_init_def del: scan_rows.simps)
  show "goals st = map cell_pos (filter is_goal (cells rows))"
    by (simp add: st scan_rows_cells fold_scan_goals scan_init_def del: scan_rows.simps)
  show "walls st = (\<lambda>xyc. pos_key (int (fst xyc)) (int (fst (snd xyc)))) `
           {xyc \<in> set (cells rows). is_wall_cell xyc}"
    by (simp add: st scan_rows_cells fold_scan_walls scan_init_def del: scan_rows.simps)
  show "width st = length (hd rows)" "height st = length rows" "rows \<noteq> []"
    by (simp_all add: st rows)
qed

lemma math_max_Max: "ns \<noteq> [] \<Longrightarrow> math_max ns = Num (Max (set ns))"
  by (cases ns) (simp_all only: math_max.simps Max.set_eq_fold, simp)

text \<open>
  The width that \<^verbatim>\<open>part_000\<close> records is the maximum row length; the width that \<^verbatim>\<open>App.js\<close>
  records is the length of the first row.
\<close>

lemma parseMap_p0_width_max:
  "rows \<noteq> [] \<Longrightarrow> width_p0 (parseMap_p0 rows) = Num (Max (set (map length rows)))"
  by (simp add: parseMap_p0_records math_max_Max)

lemma key_in_cells:
  assumes "pos_key (pos_x c) (pos_y c) =
      pos_key (int (fst xyc)) (int (fst (snd xyc)))" and "xyc \<in> set (cells rows)"
  shows "in_map rows c"
proof -
  from assms(1) have "pos_x c = int (fst xyc) \<and> pos_y c = int (fst (snd xyc))"
    by (rule pos_key_inj)
  then have "c = cell_pos xyc" by (simp add: cell_pos_def pos_eq_iff)
  with assms(2) show ?thesis by (simp add: cell_in_map)
qed

text \<open>
  In both copies every mover, box, goal and wall that the parser records lies on a cell of
  the map: nothing is recorded beyond the end of a row.
\<close>

lemma parseMap_p0_in_map:
  assumes "player_p0 (parseMap_p0 rows) = Some c \<or> c \<in> set (boxes_p0 (parseMap_p0 rows)) \<or>
    c \<in> set (goals_p0 (parseMap_p0 rows)) \<or> is_wall_p0 (parseMap_p0 rows) c"
  shows "in_map rows c"
proof -
  have pl: "player_p0 (parseMap_p0 rows) = Some c \<Longrightarrow> in_map rows c"
  proof -
    assume "player_p0 (parseMap_p0 rows) = Some c"
    then have ne: "movers rows \<noteq> []" and c: "c = last (movers rows)"
      by (auto simp: parseMap_p0_player split: if_splits)
    then have "c \<in> set (movers rows)" by simp
    then show ?thesis by (auto simp: movers_def cell_in_map)
  qed
  have w: "is_wall_p0 (parseMap_p0 rows) c \<Longrightarrow> in_map rows c"
    by (auto simp: is_wall_p0_def parseMap_p0_records intro: key_in_cells)
  from assms pl w show ?thesis
    by (auto simp: parseMap_p0_records cell_in_map)
qed

lemma parseMap_in_map:
  assumes "parseMap rows = Inr st"
    and "player st = Some c \<or> c \<in> box_pos ` set (boxes st) \<or> c \<in> set (goals st) \<or> is_wall st c"
  shows "in_map rows c"
proof -
  note r = parseMap_records[OF assms(1)]
  have pl: "player st = Some c \<Longrightarrow> in_map rows c"
  proof -
    assume a: "player st = Some c"
    from parseMap_player[OF r(6)] assms(1) a
    have ne: "movers rows \<noteq> []" and c: "c = last (movers rows)"
      by (auto split: if_splits)
    then have "c \<in> set (movers rows)" by simp
    then show ?thesis by (auto simp: movers_def cell_in_map)
  qed
  have b: "c \<in> box_pos ` set (boxes st) \<Longrightarrow> in_map rows c"
  proof -
    assume "c \<in> box_pos ` set (boxes st)"
    then have "c \<in> set (map box_pos (boxes st))" by simp
    then show ?thesis unfolding r(1) by (auto simp: cell_in_map)
  qed
  have w: "is_wall st c \<Longrightarrow> in_map rows c"
    by (auto simp: is_wall_def r(3) intro: key_in_cells)
  from assms(2) pl b w show ?thesis
    by (auto simp: r(2) cell_in_map)
qed

lemma cells_snoc:
  "cells (rows @ [r]) = cells rows @ map (\<lambda>x. (x, length rows, r ! x)) [0..<length r]"
proof -
  have m: "map (\<lambda>y. map (\<lambda>x. (x, y, (rows @ [r]) ! y ! x)) [0..<length ((rows @ [r]) ! y)])
          [0..<length rows] =
        map (\<lambda>y. map (\<lambda>x. (x, y, rows ! y ! x)) [0..<length (rows ! y)]) [0..<length rows]"
    by (rule map_cong) (simp_all add: nth_append)
  show ?thesis by (simp add: cells_def m)
qed

lemma cells_distinct: "distinct (map cell_pos (cells rows))"
proof (induction rows rule: rev_induct)
  case Nil
  then show ?case by (simp add: cells_def)
next
  case (snoc r rows)
  have a: "distinct (map cell_pos (map (\<lambda>x. (x, length rows, r ! x)) [0..<length r]))"
    by (simp add: distinct_map inj_on_def cell_pos_def comp_def)
  have b: "cell_pos xyc \<noteq> cell_pos (x, length rows, r ! x)" if "xyc \<in> set (cells rows)" for xyc x
  proof -
    obtain x' y' c' where e: "xyc = (x', y', c')" by (cases xyc) auto
    with that have "y' < length rows" by (simp add: cells_iff)
    then show ?thesis by (simp add: e cell_pos_def)
  qed
  from snoc a b show ?case
    by (auto simp: cells_snoc)
qed

text \<open>The boxes of a parsed map lie on pairwise distinct cells.\<close>

lemma parseMap_boxes_distinct:
  "parseMap rows = Inr st \<Longrightarrow> distinct (map box_pos (boxes st))"
  using cells_distinct[of rows]
  by (simp add: parseMap_records(1) distinct_map_filter)

lemma parseMap_p0_boxes_distinct: "distinct (boxes_p0 (parseMap_p0 rows))"
  using cells_distinct[of rows]
  by (simp add: parseMap_p0_records(1) distinct_map_filter)

section \<open>Moves that the move generator calls legal\<close>

lemma distinct_map_update:
  assumes "distinct (map f xs)" and "i < length xs" and "f v \<notin> f ` set xs"
  shows "distinct (map f (xs[i := v]))"
proof -
  have "distinct ((map f xs)[i := f v])"
    using assms by (intro distinct_list_update) auto
  then show ?thesis by (simp add: map_update)
qed

lemma applyMove_walls: "applyMove st mv = Inr st' \<Longrightarrow> walls st' = walls st"
  unfolding applyMove_def by (auto simp: Let_def split: option.splits prod.splits)

lemma applyMove_p0_walls: "applyMove_p0 st mv = Inr st' \<Longrightarrow> walls_p0 st' = walls_p0 st"
  unfolding applyMove_p0_def json_clone_def
  by (auto simp: Let_def split: option.splits prod.splits)

lemma applyMove_legal:
  assumes "legal st mv" and "distinct (map box_pos (boxes st))"
  shows "\<exists>st' p. player st = Some p \<and> applyMove st mv = Inr st' \<and>
      walls st' = walls st \<and> player st' = Some (shift mv p) \<and>
      \<not> is_wall st' (shift mv p) \<and>
      (shift mv p \<in> box_pos ` set (boxes st) \<longrightarrow>
         shift mv (shift mv p) \<in> box_pos ` set (boxes st') \<and>
         \<not> is_wall st' (shift mv (shift mv p))) \<and>
      distinct (map box_pos (boxes st'))"
proof -
  from assms(1) obtain p where p: "player st = Some p"
    by (auto simp: legal_def split: option.splits)
  with assms(1) have nw: "\<not> is_wall st (shift mv p)"
    and push: "shift mv p \<in> box_pos ` set (boxes st) \<Longrightarrow>
       \<not> is_wall st (shift mv (shift mv p)) \<and>
       shift mv (shift mv p) \<notin> box_pos ` set (boxes st)"
    by (auto simp: legal_def split: if_splits)
  have new: "box_pos \<lparr>box_x = pos_x c, box_y = pos_y c, box_id = k\<rparr> = c" for c k
    by (simp add: box_pos_def)
  show ?thesis
  proof (cases "findIndex (\<lambda>b. box_pos b = shift mv p) (boxes st)")
    case None
    then have "shift mv p \<notin> box_pos ` set (boxes st)"
      by (auto simp: findIndex_None)
    with None p nw assms(2) show ?thesis
      by (simp add: applyMove_unfold is_wall_def)
  next
    case (Some i)
    then have i: "i < length (boxes st)" "box_pos (boxes st ! i) = shift mv p"
      by (simp_all add: findIndex_Some)
    then have mem: "shift mv p \<in> box_pos ` set (boxes st)"
      by (metis imageI nth_mem)
    let ?v = "\<lparr>box_x = pos_x (shift mv (shift mv p)), box_y = pos_y (shift mv (shift mv p)),
               box_id = box_id (boxes st ! i)\<rparr>"
    from push[OF mem] have free: "box_pos ?v \<notin> box_pos ` set (boxes st)"
      by (simp add: new)
    have d: "distinct (map box_pos ((boxes st)[i := ?v]))"
      using assms(2) i(1) free by (rule distinct_map_update)
    have in': "shift mv (shift mv p) \<in> box_pos ` set ((boxes st)[i := ?v])"
      using i(1) by (metis new imageI set_update_memI)
    from Some p nw push[OF mem] d in' show ?thesis
      by (simp add: applyMove_unfold is_wall_def)
  qed
qed

lemma applyMove_p0_legal:
  assumes "legal_p0 st mv" and "distinct (boxes_p0 st)"
  shows "\<exists>st' p. player_p0 st = Some p \<and> applyMove_p0 st mv = Inr st' \<and>
      walls_p0 st' = walls_p0 st \<and> player_p0 st' = Some (shift mv p) \<and>
      \<not> is_wall_p0 st' (shift mv p) \<and>
      (shift mv p \<in> set (boxes_p0 st) \<longrightarrow>
         shift mv (shift mv p) \<in> set (boxes_p0 st') \<and>
         \<not> is_wall_p0 st' (shift mv (shift mv p))) \<and>
      distinct (boxes_p0 st')"
proof -
  from assms(1) obtain p where p: "player_p0 st = Some p"
    by (auto simp: legal_p0_def split: option.splits)
  with assms(1) have nw: "\<not> is_wall_p0 st (shift mv p)"
    and push: "shift mv p \<in> set (boxes_p0 st) \<Longrightarrow>
       \<not> is_wall_p0 st (shift mv (shift mv p)) \<and>
       shift mv (shift mv p) \<notin> set (boxes_p0 st)"
    by (auto simp: legal_p0_def split: if_splits)
  show ?thesis
  proof (cases "findIndex (\<lambda>b. b = shift mv p) (boxes_p0 st)")
    case None
    then have "shift mv p \<notin> set (boxes_p0 st)"
      by (auto simp: findIndex_None)
    with None p nw assms(2) show ?thesis
      by (simp add: applyMove_p0_unfold is_wall_p0_def)
  next
    case (Some i)
    then have i: "i < length (boxes_p0 st)" "boxes_p0 st ! i = shift mv p"
      by (simp_all add: findIndex_Some)
    then have mem: "shift mv p \<in> set (boxes_p0 st)"
      by (metis nth_mem)
    from push[OF mem] have free: "shift mv (shift mv p) \<notin> set (boxes_p0 st)"
      by simp
    have d: "distinct ((boxes_p0 st)[i := shift mv (shift mv p)])"
      using assms(2) free by (intro distinct_list_update) auto
    have in': "shift mv (shift mv p) \<in> set ((boxes_p0 st)[i := shift mv (shift mv p)])"
      using i(1) by (rule set_update_memI)
    from Some p nw push[OF mem] d in' show ?thesis
      by (simp add: applyMove_p0_unfold is_wall_p0_def)
  qed
qed

text \<open>
  The boxes of every state of the search lie on pairwise distinct cells: they do so in the
  parsed state, and a legal move keeps them so.
\<close>

lemma legal_replay_distinct:
  "distinct (map box_pos (boxes st)) \<Longrightarrow> legal_replay st mvs = Some st' \<Longrightarrow>
   distinct (map box_pos (boxes st'))"
proof (induction mvs arbitrary: st)
  case Nil
  then show ?case by simp
next
  case (Cons mv mvs)
  from Cons.prems(2) have l: "legal st mv"
    by (simp split: if_splits)
  with Cons.prems(2) obtain st1 where st1: "applyMove st mv = Inr st1"
    and rest: "legal_replay st1 mvs = Some st'"
    by (cases "applyMove st mv") simp_all
  from applyMove_legal[OF l Cons.prems(1)] st1 have "distinct (map box_pos (boxes st1))"
    by auto
  then show ?case using rest by (rule Cons.IH)
qed

lemma legal_replay_p0_distinct:
  "distinct (boxes_p0 st) \<Longrightarrow> legal_replay_p0 st mvs = Some st' \<Longrightarrow> distinct (boxes_p0 st')"
proof (induction mvs arbitrary: st)
  case Nil
  then show ?case by simp
next
  case (Cons mv mvs)
  from Cons.prems(2) have l: "legal_p0 st mv"
    by (simp split: if_splits)
  with Cons.prems(2) obtain st1 where st1: "applyMove_p0 st mv = Inr st1"
    and rest: "legal_replay_p0 st1 mvs = Some st'"
    by (cases "applyMove_p0 st mv") simp_all
  from applyMove_p0_legal[OF l Cons.prems(1)] st1 have "distinct (boxes_p0 st1)"
    by auto
  then show ?case using rest by (rule Cons.IH)
qed

text \<open>
  Claim C4.  Let \<open>st\<close> be a state of the search: the parsed state of a map, or a state reached
  from it by legal moves.  In both copies, applying a direction that is legal for \<open>st\<close>
  returns a state with the walls of \<open>st\<close> in which the mover's cell is not a wall of \<open>st\<close>,
  the pushed box (if a box was on the target) is on the cell beyond the target, which is
  not a wall of \<open>st\<close>, and no two boxes are on the same cell.
\<close>

theorem legal_move_successor:
  "(parseMap rows = Inr st0 \<and> legal_replay st0 mvs = Some st \<and> legal st mv \<longrightarrow>
      (\<exists>st' p. player st = Some p \<and> applyMove st mv = Inr st' \<and>
         walls st' = walls st \<and> player st' = Some (shift mv p) \<and>
         \<not> is_wall st (shift mv p) \<and>
         (shift mv p \<in> box_pos ` set (boxes st) \<longrightarrow>
            shift mv (shift mv p) \<in> box_pos ` set (boxes st') \<and>
            \<not> is_wall st (shift mv (shift mv p))) \<and>
         distinct (map box_pos (boxes st')))) \<and>
   (legal_replay_p0 (parseMap_p0 rows) mvs1 = Some st1 \<and> legal_p0 st1 mv \<longrightarrow>
      (\<exists>st' p. player_p0 st1 = Some p \<and> applyMove_p0 st1 mv = Inr st' \<and>
         walls_p0 st' = walls_p0 st1 \<and> player_p0 st' = Some (shift mv p) \<and>
         \<not> is_wall_p0 st1 (shift mv p) \<and>
         (shift mv p \<in> set (boxes_p0 st1) \<longrightarrow>
            shift mv (shift mv p) \<in> set (boxes_p0 st') \<and>
            \<not> is_wall_p0 st1 (shift mv (shift mv p))) \<and>
         distinct (boxes_p0 st')))"
proof (intro conjI impI)
  assume a: "parseMap rows = Inr st0 \<and> legal_replay st0 mvs = Some st \<and> legal st mv"
  then have "distinct (map box_pos (boxes st0))" by (blast intro: parseMap_boxes_distinct)
  with a have d: "distinct (map box_pos (boxes st))" by (blast intro: legal_replay_distinct)
  from a have l: "legal st mv" by simp
  from applyMove_legal[OF l d]
  show "\<exists>st' p. player st = Some p \<and> applyMove st mv = Inr st' \<and>
         walls st' = walls st \<and> player st' = Some (shift mv p) \<and>
         \<not> is_wall st (shift mv p) \<and>
         (shift mv p \<in> box_pos ` set (boxes st) \<longrightarrow>
            shift mv (shift mv p) \<in> box_pos ` set (boxes st') \<and>
            \<not> is_wall st (shift mv (shift mv p))) \<and>
         distinct (map box_pos (boxes st'))"
    by (auto simp: is_wall_def)
next
  assume a: "legal_replay_p0 (parseMap_p0 rows) mvs1 = Some st1 \<and> legal_p0 st1 mv"
  have "distinct (boxes_p0 (parseMap_p0 rows))" by (rule parseMap_p0_boxes_distinct)
  with a have d: "distinct (boxes_p0 st1)" by (blast intro: legal_replay_p0_distinct)
  from a have l: "legal_p0 st1 mv" by simp
  from applyMove_p0_legal[OF l d]
  show "\<exists>st' p. player_p0 st1 = Some p \<and> applyMove_p0 st1 mv = Inr st' \<and>
         walls_p0 st' = walls_p0 st1 \<and> player_p0 st' = Some (shift mv p) \<and>
         \<not> is_wall_p0 st1 (shift mv p) \<and>
         (shift mv p \<in> set (boxes_p0 st1) \<longrightarrow>
            shift mv (shift mv p) \<in> set (boxes_p0 st') \<and>
            \<not> is_wall_p0 st1 (shift mv (shift mv p))) \<and>
         distinct (boxes_p0 st')"
    by (auto simp: is_wall_p0_def)
qed

theorem legal_move_successor_witness:
  "\<not> isl (parseMap scenario) \<and>
   legal_replay (projr (parseMap scenario)) [L] = Some (projr (replay_map scenario [L])) \<and>
   legal (projr (replay_map scenario [L])) D \<and>
   (\<exists>st'. applyMove (projr (replay_map scenario [L])) D = Inr st' \<and>
      player st' = Some \<lparr>pos_x = 2, pos_y = 3\<rparr> \<and>
      distinct (map box_pos (boxes st'))) \<and>
   legal_replay_p0 (parseMap_p0 scenario) [U, L] =
     Some (projr (replay_p0 (parseMap_p0 scenario) [U, L])) \<and>
   legal_p0 (projr (replay_p0 (parseMap_p0 scenario) [U, L])) D \<and>
   (\<exists>st'. applyMove_p0 (projr (replay_p0 (parseMap_p0 scenario) [U, L])) D = Inr st' \<and>
      boxes_p0 st' = [\<lparr>pos_x = 2, pos_y = 3\<rparr>] \<and> distinct (boxes_p0 st'))"
proof -
  have a: "parseMap scenario = Inr (projr (parseMap scenario))"
    and b: "legal_replay (projr (parseMap scenario)) [L] =
              Some (projr (replay_map scenario [L]))"
    and c: "legal (projr (replay_map scenario [L])) D"
    and d: "legal_replay_p0 (parseMap_p0 scenario) [U, L] =
              Some (projr (replay_p0 (parseMap_p0 scenario) [U, L]))"
    and e: "legal_p0 (projr (replay_p0 (parseMap_p0 scenario) [U, L])) D"
    and f: "player (projr (replay_map scenario [L])) = Some \<lparr>pos_x = 2, pos_y = 2\<rparr>"
    and g: "player_p0 (projr (replay_p0 (parseMap_p0 scenario) [U, L])) =
              Some \<lparr>pos_x = 2, pos_y = 1\<rparr>"
    and h: "\<lparr>pos_x = 2, pos_y = 2\<rparr> \<in> set (boxes_p0 (projr (replay_p0 (parseMap_p0 scenario) [U, L])))"
    and i: "length (boxes_p0 (projr (replay_p0 (parseMap_p0 scenario) [U, L]))) = 1"
    by code_simp+
  have sh: "shift D \<lparr>pos_x = 2, pos_y = 2\<rparr> = \<lparr>pos_x = 2, pos_y = 3\<rparr>"
    "shift D \<lparr>pos_x = 2, pos_y = 1\<rparr> = \<lparr>pos_x = 2, pos_y = 2\<rparr>"
    by (simp_all add: shift_def)
  from a have n: "\<not> isl (parseMap scenario)" by (metis sum.disc(2))
  from legal_move_successor[where rows = scenario and ?st0.0 = "projr (parseMap scenario)"
      and mvs = "[L]" and st = "projr (replay_map scenario [L])" and mv = D
      and ?mvs1.0 = "[U, L]" and ?st1.0 = "projr (replay_p0 (parseMap_p0 scenario) [U, L])"]
    a b c d e
  obtain s1 s2 where
    1: "applyMove (projr (replay_map scenario [L])) D = Inr s1"
      "player s1 = Some (shift D \<lparr>pos_x = 2, pos_y = 2\<rparr>)"
      "distinct (map box_pos (boxes s1))"
    and 2: "applyMove_p0 (projr (replay_p0 (parseMap_p0 scenario) [U, L])) D = Inr s2"
      "shift D (shift D \<lparr>pos_x = 2, pos_y = 1\<rparr>) \<in> set (boxes_p0 s2)"
      "distinct (boxes_p0 s2)"
    using f g h sh by auto
  from 2(1) have "length (boxes_p0 s2) = 1"
    using i applyMove_p0_boxes_length by fastforce
  with 2(2) have "boxes_p0 s2 = [\<lparr>pos_x = 2, pos_y = 3\<rparr>]"
    by (cases "boxes_p0 s2") (simp_all add: sh)
  with n b c d e 1 2 show ?thesis by (simp add: sh)
qed

text \<open>
  Legality is a precondition of these facts, not something that \<^verbatim>\<open>applyMove\<close> enforces: it
  applies illegal directions too.  From the parsed map \<^verbatim>\<open>@$$#\<close> the direction \<open>R\<close> is not
  legal (the cell beyond the first box holds the second), and \<^verbatim>\<open>applyMove\<close> pushes the first
  box onto the second.
\<close>

lemma applyMove_applies_illegal_direction:
  "\<not> legal (projr (parseMap [''@$$#''])) R \<and>
   map box_pos (boxes (projr (replay_map [''@$$#''] [R]))) =
     [\<lparr>pos_x = 2, pos_y = 0\<rparr>, \<lparr>pos_x = 2, pos_y = 0\<rparr>] \<and>
   \<not> legal_p0 (parseMap_p0 [''@$$#'']) R \<and>
   boxes_p0 (projr (replay_p0 (parseMap_p0 [''@$$#'']) [R])) =
     [\<lparr>pos_x = 2, pos_y = 0\<rparr>, \<lparr>pos_x = 2, pos_y = 0\<rparr>]"
  by code_simp

section \<open>The object store\<close>

lemma deref_Some_iff: "(deref h r = Some ob) = (r < length h \<and> h ! r = ob)"
  by (auto simp: deref_def)

lemma deref_append_left: "r < length h \<Longrightarrow> deref (h @ e) r = deref h r"
  by (simp add: deref_def nth_append)

lemma deref_append_right: "deref (h @ e) (length h + i) = deref e i"
  by (simp add: deref_def nth_append)

lemma deref_update:
  "deref (h[a := ob]) r = (if r = a \<and> a < length h then Some ob else deref h r)"
  by (auto simp: deref_def)

lemma deref_prefix:
  assumes "take (length h) h' = h" and "r < length h"
  shows "deref h' r = deref h r"
proof -
  from assms(1) have "h' = h @ drop (length h) h'"
    by (metis append_take_drop_id)
  then show ?thesis using assms(2) by (metis deref_append_left)
qed

text \<open>The readers look only at the object behind the reference.\<close>

lemma pos_of_local: "deref h r = deref h' r' \<Longrightarrow> pos_of h r = pos_of h' r'"
  by (simp add: pos_of_def read_pos_def)

lemma box_of_local: "deref h r = deref h' r' \<Longrightarrow> box_of h r = box_of h' r'"
  by (simp add: box_of_def read_box_def)

lemma at_cell_local: "deref h r = deref h' r' \<Longrightarrow> at_cell h x y r = at_cell h' x y r'"
  by (simp add: at_cell_def)

lemma pos_of_Some_less: "pos_of h r = Some v \<Longrightarrow> r < length h"
  by (auto simp: pos_of_def read_pos_def deref_def split: if_splits)

lemma box_of_Some_less: "box_of h r = Some v \<Longrightarrow> r < length h"
  by (auto simp: box_of_def read_box_def deref_def split: if_splits)

lemma read_all_Some_iff:
  "(read_all rd h rs = Some vs) =
     ((\<forall>r\<in>set rs. rd h r \<noteq> None) \<and> vs = map (\<lambda>r. the (rd h r)) rs)"
  by (auto simp: read_all_def list_all_iff)

lemma read_all_cong:
  assumes "length rs = length rs'" and "\<And>i. i < length rs \<Longrightarrow> rd h (rs ! i) = rd h' (rs' ! i)"
  shows "read_all rd h rs = read_all rd h' rs'"
proof -
  have a: "list_all (\<lambda>r. rd h r \<noteq> None) rs = list_all (\<lambda>r. rd h' r \<noteq> None) rs'"
    using assms by (simp add: list_all_length)
  have b: "map (\<lambda>r. the (rd h r)) rs = map (\<lambda>r. the (rd h' r)) rs'"
    using assms by (intro nth_equalityI) simp_all
  show ?thesis by (simp only: read_all_def a b)
qed

lemma findIndex_cong:
  assumes "length xs = length ys" and "\<And>i. i < length xs \<Longrightarrow> P (xs ! i) = Q (ys ! i)"
  shows "findIndex P xs = findIndex Q ys"
  using assms
proof (induction xs ys rule: list_induct2)
  case Nil
  then show ?case by simp
next
  case (Cons x xs y ys)
  from Cons.prems[of 0] have h: "P x = Q y" by simp
  have "findIndex P xs = findIndex Q ys"
  proof (rule Cons.IH)
    fix i assume "i < length xs"
    then show "P (xs ! i) = Q (ys ! i)" using Cons.prems[of "Suc i"] by simp
  qed
  with h show ?case by simp
qed

text \<open>\<^verbatim>\<open>map\<close> with a copying callback appends the copies of the elements to the store.\<close>

lemma clone_pos_eq:
  "deref h r = Some (Pos x y) \<Longrightarrow> clone_pos h r = Some (h @ [Pos x y], length h)"
  by (simp add: clone_pos_def read_pos_def alloc_def)

lemma clone_box_eq:
  "deref h r = Some (Box x y i) \<Longrightarrow> clone_box h r = Some (h @ [Box x y i], length h)"
  by (simp add: clone_box_def read_box_def alloc_def)

lemma map_clone_copies:
  assumes f: "\<And>h r ob. deref h r = Some ob \<Longrightarrow> K ob \<Longrightarrow> f h r = Some (h @ [ob], length h)"
    and ok: "\<forall>r\<in>set rs. \<exists>ob. deref h r = Some ob \<and> K ob"
  shows "map_clone f h rs = Some (h @ map (\<lambda>r. h ! r) rs, [length h..<length h + length rs])"
  using ok
proof (induction rs arbitrary: h)
  case Nil
  then show ?case by simp
next
  case (Cons r rs)
  from Cons.prems obtain ob where ob: "deref h r = Some ob" "K ob" by auto
  then have hr: "h ! r = ob" by (simp add: deref_Some_iff)
  have less: "\<forall>r'\<in>set rs. r' < length h"
    using Cons.prems by (auto simp: deref_Some_iff)
  then have ok': "\<forall>r'\<in>set rs. \<exists>ob'. deref (h @ [ob]) r' = Some ob' \<and> K ob'"
    using Cons.prems by (auto simp: deref_append_left)
  have m: "map (\<lambda>r'. (h @ [ob]) ! r') rs = map (\<lambda>r'. h ! r') rs"
    using less by (simp add: nth_append)
  have u: "[length h..<length h + length (r # rs)] =
           length h # [length (h @ [ob])..<length (h @ [ob]) + length rs]"
    by (simp add: upt_conv_Cons del: upt_Suc)
  show ?case
    using f[OF ob] Cons.IH[OF ok'] unfolding u by (simp add: m hr del: upt_Suc)
qed

lemma clone_array_pos:
  assumes "read_arr h a = Some rs" and "\<forall>r\<in>set rs. pos_of h r \<noteq> None"
  shows "clone_array clone_pos h a =
     Some (h @ map (\<lambda>r. h ! r) rs @ [Arr [length h..<length h + length rs]],
           length h + length rs)"
proof -
  have ok: "\<forall>r\<in>set rs. \<exists>ob. deref h r = Some ob \<and> (\<exists>x y. ob = Pos x y)"
  proof
    fix r assume "r \<in> set rs"
    with assms(2) have "pos_of h r \<noteq> None" by simp
    then show "\<exists>ob. deref h r = Some ob \<and> (\<exists>x y. ob = Pos x y)"
      by (simp add: pos_of_def read_pos_def split: option.splits obj.splits)
  qed
  have "map_clone clone_pos h rs =
      Some (h @ map (\<lambda>r. h ! r) rs, [length h..<length h + length rs])"
    by (rule map_clone_copies[where K = "\<lambda>ob. \<exists>x y. ob = Pos x y", OF _ ok])
       (auto simp: clone_pos_eq)
  with assms(1) show ?thesis by (simp add: clone_array_def alloc_def)
qed

lemma clone_array_box:
  assumes "read_arr h a = Some rs" and "\<forall>r\<in>set rs. box_of h r \<noteq> None"
  shows "clone_array clone_box h a =
     Some (h @ map (\<lambda>r. h ! r) rs @ [Arr [length h..<length h + length rs]],
           length h + length rs)"
proof -
  have ok: "\<forall>r\<in>set rs. \<exists>ob. deref h r = Some ob \<and> (\<exists>x y i. ob = Box x y i)"
  proof
    fix r assume "r \<in> set rs"
    with assms(2) have "box_of h r \<noteq> None" by simp
    then show "\<exists>ob. deref h r = Some ob \<and> (\<exists>x y i. ob = Box x y i)"
      by (simp add: box_of_def read_box_def split: option.splits obj.splits)
  qed
  have "map_clone clone_box h rs =
      Some (h @ map (\<lambda>r. h ! r) rs, [length h..<length h + length rs])"
    by (rule map_clone_copies[where K = "\<lambda>ob. \<exists>x y i. ob = Box x y i", OF _ ok])
       (auto simp: clone_box_eq)
  with assms(1) show ?thesis by (simp add: clone_array_def alloc_def)
qed

subsection \<open>States in the store\<close>

lemma read_pos_Some_iff: "(read_pos h r = Some v) = (deref h r = Some (Pos (fst v) (snd v)))"
  by (cases v) (auto simp: read_pos_def split: option.splits obj.splits)

lemma read_box_Some_iff:
  "(read_box h r = Some v) = (deref h r = Some (Box (fst v) (fst (snd v)) (snd (snd v))))"
  by (cases v) (auto simp: read_box_def split: option.splits obj.splits)

lemma read_arr_Some_iff: "(read_arr h r = Some rs) = (deref h r = Some (Arr rs))"
  by (auto simp: read_arr_def split: option.splits obj.splits)

lemma read_strs_Some_iff: "(read_strs h r = Some ss) = (deref h r = Some (Strs ss))"
  by (auto simp: read_strs_def split: option.splits obj.splits)

lemma read_keys_Some_iff: "(read_keys h r = Some ks) = (deref h r = Some (KeySet ks))"
  by (auto simp: read_keys_def split: option.splits obj.splits)

lemma read_state_Some_iff: "(read_state h r = Some so) = (deref h r = Some (State so))"
  by (auto simp: read_state_def split: option.splits obj.splits)

lemma read_state_p0_Some_iff: "(read_state_p0 h r = Some so) = (deref h r = Some (State_p0 so))"
  by (auto simp: read_state_p0_def split: option.splits obj.splits)

lemma pos_of_Some_iff:
  "(pos_of h r = Some c) = (deref h r = Some (Pos (pos_x c) (pos_y c)))"
  by (cases c) (auto simp: pos_of_def read_pos_Some_iff)

lemma box_of_Some_iff:
  "(box_of h r = Some b) = (deref h r = Some (Box (box_x b) (box_y b) (box_id b)))"
  by (cases b) (auto simp: box_of_def read_box_Some_iff)

lemma state_of_SomeD:
  assumes "state_of h s = Some st"
  obtains so brs grs where
    "deref h s = Some (State so)"
    "player_of h (ref_player so) = Some (player st)"
    "deref h (ref_boxes so) = Some (Arr brs)" "read_all box_of h brs = Some (boxes st)"
    "deref h (ref_goals so) = Some (Arr grs)" "read_all pos_of h grs = Some (goals st)"
    "deref h (ref_walls so) = Some (KeySet (walls st))"
    "deref h (ref_map so) = Some (Strs (map_rows st))"
    "width st = val_width so" "height st = val_height so"
  using assms
  by (auto simp: state_of_def array_of_def Option.bind_eq_Some_conv read_state_Some_iff
      read_arr_Some_iff read_keys_Some_iff read_strs_Some_iff)

lemma state_of_SomeI:
  assumes "deref h s = Some (State so)"
    "player_of h (ref_player so) = Some pl"
    "deref h (ref_boxes so) = Some (Arr brs)" "read_all box_of h brs = Some bs"
    "deref h (ref_goals so) = Some (Arr grs)" "read_all pos_of h grs = Some gs"
    "deref h (ref_walls so) = Some (KeySet ws)"
    "deref h (ref_map so) = Some (Strs m)"
  shows "state_of h s = Some \<lparr>player = pl, boxes = bs, goals = gs, walls = ws,
     width = val_width so, height = val_height so, map_rows = m\<rparr>"
  using assms
  by (simp add: state_of_def array_of_def read_state_def read_arr_def read_keys_def
      read_strs_def)

text \<open>Every object that a state stands on lies in the store; a larger store with the same
  objects at the old references holds the same state.\<close>

lemma read_all_prefix:
  assumes "read_all rd h rs = Some vs"
    and loc: "\<And>h r h' r'. deref h r = deref h' r' \<Longrightarrow> rd h r = rd h' r'"
    and less: "\<And>r v. rd h r = Some v \<Longrightarrow> r < length h"
    and pre: "take (length h) h' = h"
  shows "read_all rd h' rs = Some vs"
proof -
  have "read_all rd h' rs = read_all rd h rs"
  proof (rule read_all_cong)
    fix i assume i: "i < length rs"
    then have "rs ! i \<in> set rs" by simp
    with assms(1) have "rd h (rs ! i) \<noteq> None" by (simp add: read_all_Some_iff)
    then have "rs ! i < length h" using less by auto
    then have "deref h' (rs ! i) = deref h (rs ! i)" using pre by (rule deref_prefix[rotated])
    then show "rd h' (rs ! i) = rd h (rs ! i)" by (rule loc)
  qed simp
  with assms(1) show ?thesis by simp
qed

lemma deref_prefix_Some:
  "deref h r = Some ob \<Longrightarrow> take (length h) h' = h \<Longrightarrow> deref h' r = Some ob"
  using deref_prefix[of h h' r] by (simp add: deref_Some_iff)

lemma state_of_prefix:
  assumes "state_of h s = Some st" and pre: "take (length h) h' = h"
  shows "state_of h' s = Some st"
proof -
  from assms(1) obtain so brs grs where f:
    "deref h s = Some (State so)"
    "player_of h (ref_player so) = Some (player st)"
    "deref h (ref_boxes so) = Some (Arr brs)" "read_all box_of h brs = Some (boxes st)"
    "deref h (ref_goals so) = Some (Arr grs)" "read_all pos_of h grs = Some (goals st)"
    "deref h (ref_walls so) = Some (KeySet (walls st))"
    "deref h (ref_map so) = Some (Strs (map_rows st))"
    "width st = val_width so" "height st = val_height so"
    by (rule state_of_SomeD)
  have pl: "player_of h' (ref_player so) = Some (player st)"
  proof (cases "ref_player so")
    case None
    with f(2) show ?thesis by (simp add: player_of_def)
  next
    case (Some pr)
    with f(2) obtain c where c: "pos_of h pr = Some c" "player st = Some c"
      by (cases "pos_of h pr") (auto simp: player_of_def)
    then have "pos_of h' pr = Some c"
      using deref_prefix_Some[OF _ pre] by (simp add: pos_of_Some_iff)
    with c Some show ?thesis by (simp add: player_of_def)
  qed
  have bs: "read_all box_of h' brs = Some (boxes st)"
    using f(4) box_of_local box_of_Some_less pre by (rule read_all_prefix)
  have gs: "read_all pos_of h' grs = Some (goals st)"
    using f(6) pos_of_local pos_of_Some_less pre by (rule read_all_prefix)
  have "state_of h' s = Some \<lparr>player = player st, boxes = boxes st, goals = goals st,
     walls = walls st, width = val_width so, height = val_height so, map_rows = map_rows st\<rparr>"
    using f(1)[THEN deref_prefix_Some, OF pre] pl f(3)[THEN deref_prefix_Some, OF pre] bs
      f(5)[THEN deref_prefix_Some, OF pre] gs f(7)[THEN deref_prefix_Some, OF pre]
      f(8)[THEN deref_prefix_Some, OF pre]
    by (rule state_of_SomeI)
  with f(9,10) show ?thesis by simp
qed

subsection \<open>Move application on the store\<close>

lemma read_all_nthI:
  assumes "length rs = length vs" and "\<And>i. i < length rs \<Longrightarrow> rd h (rs ! i) = Some (vs ! i)"
  shows "read_all rd h rs = Some vs"
proof -
  have "\<forall>r\<in>set rs. rd h r \<noteq> None"
    using assms(2) by (auto simp: in_set_conv_nth)
  moreover have "vs = map (\<lambda>r. the (rd h r)) rs"
    using assms by (intro nth_equalityI) simp_all
  ultimately show ?thesis by (simp add: read_all_Some_iff)
qed

lemma read_all_nthD:
  assumes "read_all rd h rs = Some vs"
  shows "length vs = length rs" and "\<And>i. i < length rs \<Longrightarrow> rd h (rs ! i) = Some (vs ! i)"
proof -
  from assms have a: "\<forall>r\<in>set rs. rd h r \<noteq> None" and b: "vs = map (\<lambda>r. the (rd h r)) rs"
    by (simp_all add: read_all_Some_iff)
  from b show "length vs = length rs" by simp
  fix i assume i: "i < length rs"
  then have "rd h (rs ! i) \<noteq> None" using a by simp
  with i b show "rd h (rs ! i) = Some (vs ! i)" by auto
qed

text \<open>
  \<^verbatim>\<open>applyMove\<close> of \<^verbatim>\<open>App.js\<close> on a store that holds a state with a mover: it returns a new
  reference, every object of the old store is what it was, and the state behind the new
  reference is the one that \<open>applyMove\<close> computes on values.
\<close>

lemma applyMove_store_correct:
  assumes st: "state_of h s = Some st" and pl: "player st = Some p"
  shows "\<exists>h' s'. applyMove_store h s mv = Some (h', s') \<and> length h \<le> s' \<and>
           take (length h) h' = h \<and> state_of h' s = Some st \<and>
           (\<exists>st'. applyMove st mv = Inr st' \<and> state_of h' s' = Some st')"
proof -
  from st obtain so brs grs where f:
    "deref h s = Some (State so)"
    "player_of h (ref_player so) = Some (player st)"
    "deref h (ref_boxes so) = Some (Arr brs)" "read_all box_of h brs = Some (boxes st)"
    "deref h (ref_goals so) = Some (Arr grs)" "read_all pos_of h grs = Some (goals st)"
    "deref h (ref_walls so) = Some (KeySet (walls st))"
    "deref h (ref_map so) = Some (Strs (map_rows st))"
    "width st = val_width so" "height st = val_height so"
    by (rule state_of_SomeD)
  from f(2) pl obtain pr where pr: "ref_player so = Some pr"
    and dpr: "deref h pr = Some (Pos (pos_x p) (pos_y p))"
    by (cases "ref_player so"; cases "pos_of h (the (ref_player so))")
       (auto simp: player_of_def pos_of_Some_iff)
  obtain dx dy where d: "dirs mv = (dx, dy)" by (cases "dirs mv")
  let ?nX = "pos_x p + dx"
  let ?nY = "pos_y p + dy"
  have sh: "shift mv p = \<lparr>pos_x = ?nX, pos_y = ?nY\<rparr>"
    by (simp add: shift_def d)
  have sh2: "shift mv (shift mv p) = \<lparr>pos_x = ?nX + dx, pos_y = ?nY + dy\<rparr>"
    unfolding sh by (simp add: shift_def d)
  define n where "n = length h"
  define k where "k = length brs"
  define g where "g = length grs"
  note bD = read_all_nthD[OF f(4)] and gD = read_all_nthD[OF f(6)]
  have kb: "length (boxes st) = k" and gg: "length (goals st) = g"
    using bD(1) gD(1) by (simp_all add: k_def g_def)
  have bl: "i < k \<Longrightarrow> brs ! i < n" for i
    using bD(2)[of i] box_of_Some_less[of h "brs ! i"] by (simp add: k_def n_def)
  have gl: "j < g \<Longrightarrow> grs ! j < n" for j
    using gD(2)[of j] pos_of_Some_less[of h "grs ! j"] by (simp add: g_def n_def)
  have sl: "s < n" "pr < n" "ref_boxes so < n" "ref_goals so < n" "ref_walls so < n"
    "ref_map so < n"
    using f(1,3,5,7,8) dpr by (simp_all add: deref_Some_iff n_def)
  define B where "B = n + 1 + k"
  define G where "G = n + 2 + k + g"
  define N where "N = n + 3 + k + g"
  define Q where "Q = n + 4 + k + g"
  define brs' where "brs' = [n + 1..<n + 1 + k]"
  define grs' where "grs' = [n + 2 + k..<n + 2 + k + g]"
  have lenb: "length brs' = k" and leng: "length grs' = g"
    by (simp_all add: brs'_def grs'_def del: upt_Suc)
  define h1 where "h1 = h @ [Pos (pos_x p) (pos_y p)]"
  define h2 where "h2 = h1 @ map (\<lambda>r. h1 ! r) brs @ [Arr [length h1..<length h1 + length brs]]"
  define h3 where "h3 = h2 @ map (\<lambda>r. h2 ! r) grs @ [Arr [length h2..<length h2 + length grs]]"
  have len1: "length h1 = n + 1" by (simp add: h1_def n_def)
  have len2: "length h2 = n + 2 + k" by (simp add: h2_def len1 k_def)
  have len3: "length h3 = N" by (simp add: h3_def len2 g_def N_def)
  have mb: "map (\<lambda>r. h1 ! r) brs = map (\<lambda>r. h ! r) brs"
    using bl by (intro nth_equalityI) (simp_all add: h1_def nth_append n_def k_def)
  have mg: "map (\<lambda>r. h2 ! r) grs = map (\<lambda>r. h ! r) grs"
    using gl by (intro nth_equalityI) (simp_all add: h2_def h1_def nth_append n_def g_def)
  have h2_eq: "h2 = h @ Pos (pos_x p) (pos_y p) # map (\<lambda>r. h ! r) brs @ [Arr brs']"
    by (simp add: h2_def mb len1 brs'_def k_def) (simp add: h1_def)
  have h3_eq: "h3 = h @ Pos (pos_x p) (pos_y p) # map (\<lambda>r. h ! r) brs @ Arr brs' #
      map (\<lambda>r. h ! r) grs @ [Arr grs']"
    by (simp add: h3_def mg len2 grs'_def g_def) (simp add: h2_eq)
  have c1: "clone_pos h pr = Some (h1, n)"
    by (simp add: clone_pos_eq[OF dpr] h1_def n_def)
  have c2: "clone_array clone_box h1 (ref_boxes so) = Some (h2, B)"
  proof -
    have a: "read_arr h1 (ref_boxes so) = Some brs"
      using f(3) sl by (simp add: read_arr_Some_iff h1_def deref_append_left n_def)
    have b: "\<forall>r\<in>set brs. box_of h1 r \<noteq> None"
    proof
      fix r assume "r \<in> set brs"
      then obtain i where i: "i < k" "r = brs ! i" by (auto simp: in_set_conv_nth k_def)
      then have "deref h1 r = deref h r" using bl[of i]
        by (simp add: h1_def deref_append_left n_def)
      then have "box_of h1 r = box_of h r" by (rule box_of_local)
      with bD(2)[of i] i show "box_of h1 r \<noteq> None" by (simp add: k_def)
    qed
    from clone_array_box[OF a b] show ?thesis by (simp add: h2_def len1 k_def B_def)
  qed
  have c3: "clone_array clone_pos h2 (ref_goals so) = Some (h3, G)"
  proof -
    have a: "read_arr h2 (ref_goals so) = Some grs"
      using f(5) sl by (simp add: read_arr_Some_iff h2_eq deref_append_left n_def)
    have b: "\<forall>r\<in>set grs. pos_of h2 r \<noteq> None"
    proof
      fix r assume "r \<in> set grs"
      then obtain j where j: "j < g" "r = grs ! j" by (auto simp: in_set_conv_nth g_def)
      then have "deref h2 r = deref h r" using gl[of j]
        by (simp add: h2_eq deref_append_left n_def)
      then have "pos_of h2 r = pos_of h r" by (rule pos_of_local)
      with gD(2)[of j] j show "pos_of h2 r \<noteq> None" by (simp add: g_def)
    qed
    from clone_array_pos[OF a b] show ?thesis by (simp add: h3_def len2 g_def G_def)
  qed
  let ?S = "\<lparr>ref_player = Some n, ref_boxes = B, ref_goals = G,
             ref_walls = ref_walls so, val_width = val_width so,
             val_height = val_height so, ref_map = ref_map so\<rparr>"
  let ?S' = "\<lparr>ref_player = Some Q, ref_boxes = B, ref_goals = G,
             ref_walls = ref_walls so, val_width = val_width so,
             val_height = val_height so, ref_map = ref_map so\<rparr>"
  define h6 where "h6 = h3 @ [State ?S', Pos ?nX ?nY]"
  have len6: "length h6 = N + 2" by (simp add: h6_def len3)
  have D_old: "r < n \<Longrightarrow> deref h6 r = deref h r" for r
    by (simp add: h6_def h3_eq deref_def nth_append n_def)
  have D_bel: "i < k \<Longrightarrow> deref h6 (n + 1 + i) = deref h (brs ! i)" for i
    using bl[of i] by (simp add: h6_def h3_eq deref_def nth_append n_def k_def)
  have D_boxes: "deref h6 B = Some (Arr brs')"
    by (simp add: h6_def h3_eq deref_def nth_append n_def k_def B_def)
  have D_gel: "j < g \<Longrightarrow> deref h6 (n + 2 + k + j) = deref h (grs ! j)" for j
    using gl[of j] by (simp add: h6_def h3_eq deref_def nth_append n_def k_def g_def)
  have D_goals: "deref h6 G = Some (Arr grs')"
    by (simp add: h6_def h3_eq deref_def nth_append n_def k_def g_def G_def)
  have D_state: "deref h6 N = Some (State ?S')"
    by (simp add: h6_def deref_def nth_append len3)
  have D_q: "deref h6 Q = Some (Pos ?nX ?nY)"
    by (simp add: h6_def deref_def nth_append len3) (simp add: Q_def N_def)
  have T6: "take (length h) h6 = h"
    by (simp add: h6_def h3_eq)
  have run: "applyMove_store h s mv =
      (case findIndex (at_cell h6 ?nX ?nY) brs' of
         None \<Rightarrow> Some (h6, N)
       | Some boxIndex \<Rightarrow>
           do {
             (bx, by, bid) \<leftarrow> read_box h6 (brs' ! boxIndex);
             (h7, b) \<leftarrow> Some (alloc h6 (Box (?nX + dx) (?nY + dy) bid));
             h8 \<leftarrow> set_elem h7 B boxIndex b;
             Some (h8, N)
           })"
  proof -
    have r0: "read_state h s = Some so" using f(1) by (simp add: read_state_Some_iff)
    have a4: "alloc h3 (State ?S) = (h3 @ [State ?S], N)" by (simp add: alloc_def len3)
    have r4: "read_state (h3 @ [State ?S]) N = Some ?S"
      by (simp add: read_state_def deref_def len3 nth_append)
    have p4: "read_pos (h3 @ [State ?S]) n = Some (pos_x p, pos_y p)"
      by (simp add: read_pos_def deref_def nth_append h3_eq n_def)
    have a5: "alloc (h3 @ [State ?S]) (Pos ?nX ?nY) = (h3 @ [State ?S, Pos ?nX ?nY], Q)"
      by (simp add: alloc_def len3 Q_def N_def)
    have s5: "set_player (h3 @ [State ?S, Pos ?nX ?nY]) N Q = Some h6"
      by (simp add: set_player_def read_state_def deref_def nth_append len3 h6_def
          list_update_append)
    have r6: "read_state h6 N = Some ?S'" using D_state by (simp add: read_state_Some_iff)
    have b6: "read_arr h6 B = Some brs'"
      using D_boxes by (simp add: read_arr_Some_iff)
    show ?thesis
      by (simp add: applyMove_store_def r0 pr c1 c2 c3 a4 r4 p4 d a5 s5 r6 b6
          cong: option.case_cong)
  qed
  have Bel: "i < k \<Longrightarrow> box_of h6 (brs' ! i) = Some (boxes st ! i)" for i
  proof -
    assume i: "i < k"
    then have e: "brs' ! i = n + 1 + i" by (simp add: brs'_def del: upt_Suc)
    have "box_of h6 (n + 1 + i) = box_of h (brs ! i)"
      using D_bel[OF i] by (rule box_of_local)
    with bD(2)[of i] i e show ?thesis by (simp add: k_def)
  qed
  have Gel: "j < g \<Longrightarrow> pos_of h6 (grs' ! j) = Some (goals st ! j)" for j
  proof -
    assume j: "j < g"
    then have e: "grs' ! j = n + 2 + k + j" by (simp add: grs'_def del: upt_Suc)
    have "pos_of h6 (n + 2 + k + j) = pos_of h (grs ! j)"
      using D_gel[OF j] by (rule pos_of_local)
    with gD(2)[of j] j e show ?thesis by (simp add: g_def)
  qed
  have fi: "findIndex (at_cell h6 ?nX ?nY) brs' =
      findIndex (\<lambda>b. box_pos b = shift mv p) (boxes st)"
  proof (rule findIndex_cong)
    show "length brs' = length (boxes st)" by (simp add: lenb kb)
    fix i assume "i < length brs'"
    then have i: "i < k" by (simp add: lenb)
    from Bel[OF i] show "at_cell h6 ?nX ?nY (brs' ! i) = (box_pos (boxes st ! i) = shift mv p)"
      by (auto simp: box_of_Some_iff at_cell_def sh box_pos_def)
  qed
  have fr: "length h \<le> N" by (simp add: N_def n_def)
  have old6: "state_of h6 s = Some st" using st T6 by (rule state_of_prefix)
  have W6: "deref h6 (ref_walls ?S') = Some (KeySet (walls st))"
    and M6: "deref h6 (ref_map ?S') = Some (Strs (map_rows st))"
    using f(7,8) sl D_old by simp_all
  have P6: "player_of h6 (ref_player ?S') = Some (Some (shift mv p))"
    using D_q by (simp add: player_of_def pos_of_def read_pos_def sh)
  have G6: "read_all pos_of h6 grs' = Some (goals st)"
    using Gel by (intro read_all_nthI) (simp_all add: leng gg)
  have DB6: "deref h6 (ref_boxes ?S') = Some (Arr brs')"
    and DG6: "deref h6 (ref_goals ?S') = Some (Arr grs')"
    using D_boxes D_goals by simp_all
  show ?thesis
  proof (cases "findIndex (\<lambda>b. box_pos b = shift mv p) (boxes st)")
    case None
    have r: "applyMove_store h s mv = Some (h6, N)"
      using run fi None by simp
    have a: "applyMove st mv = Inr (st\<lparr>player := Some (shift mv p)\<rparr>)"
      using pl None by (simp add: applyMove_unfold)
    have B6: "read_all box_of h6 brs' = Some (boxes st)"
      using Bel by (intro read_all_nthI) (simp_all add: lenb kb)
    have "state_of h6 N = Some \<lparr>player = Some (shift mv p), boxes = boxes st,
        goals = goals st, walls = walls st, width = val_width ?S', height = val_height ?S',
        map_rows = map_rows st\<rparr>"
      using D_state P6 DB6 B6 DG6 G6 W6 M6 by (rule state_of_SomeI)
    then have n: "state_of h6 N = Some (st\<lparr>player := Some (shift mv p)\<rparr>)"
      using f(9,10) by (cases st) simp
    from r fr T6 old6 a n show ?thesis by blast
  next
    case (Some i)
    then have i: "i < k" and at: "box_pos (boxes st ! i) = shift mv p"
      by (simp_all add: findIndex_Some kb)
    let ?v = "\<lparr>box_x = pos_x (shift mv (shift mv p)), box_y = pos_y (shift mv (shift mv p)),
               box_id = box_id (boxes st ! i)\<rparr>"
    let ?b = "Box (?nX + dx) (?nY + dy) (box_id (boxes st ! i))"
    define h8 where "h8 = (h6 @ [?b])[B := Arr (brs'[i := N + 2])]"
    have Bl: "B < N" "n \<le> B" "B < length h6"
      by (simp_all add: B_def N_def len6)
    have rb: "read_box h6 (brs' ! i) =
        Some (box_x (boxes st ! i), box_y (boxes st ! i), box_id (boxes st ! i))"
      using Bel[OF i] by (simp add: box_of_Some_iff read_box_Some_iff)
    have se: "set_elem (h6 @ [?b]) B i (N + 2) = Some h8"
      using D_boxes Bl by (simp add: set_elem_def read_arr_def deref_append_left h8_def)
    have r: "applyMove_store h s mv = Some (h8, N)"
      by (simp only: run fi Some option.case rb Option.bind.simps prod.case alloc_def len6 se)
    have a: "applyMove st mv =
        Inr (st\<lparr>player := Some (shift mv p), boxes := (boxes st)[i := ?v]\<rparr>)"
      using pl Some by (simp add: applyMove_unfold)
    have E: "r \<noteq> B \<Longrightarrow> r < length h6 \<Longrightarrow> deref h8 r = deref h6 r" for r
      by (simp add: h8_def deref_update deref_append_left)
    have E_boxes: "deref h8 B = Some (Arr (brs'[i := N + 2]))"
      using Bl by (simp add: h8_def deref_update)
    have E_new: "deref h8 (N + 2) = Some ?b"
      using Bl deref_append_right[of h6 "[?b]" 0]
      by (simp add: h8_def deref_update len6 deref_def)
    have T8: "take (length h) h8 = h"
      using T6 Bl by (simp add: h8_def n_def)
    have old8: "state_of h8 s = Some st" using st T8 by (rule state_of_prefix)
    have S8: "deref h8 N = Some (State ?S')"
      using E[of N] Bl D_state by (simp add: len6)
    have P8: "player_of h8 (ref_player ?S') = Some (Some (shift mv p))"
      using E[of Q] D_q Bl by (simp add: player_of_def pos_of_def read_pos_def sh Q_def len6 N_def)
    have DG8: "deref h8 (ref_goals ?S') = Some (Arr grs')"
      using E[of G] D_goals by (simp add: G_def B_def len6 N_def)
    have W8: "deref h8 (ref_walls ?S') = Some (KeySet (walls st))"
      and M8: "deref h8 (ref_map ?S') = Some (Strs (map_rows st))"
      using E[of "ref_walls so"] E[of "ref_map so"] W6 M6 sl Bl by (simp_all add: len6 N_def)
    have G8: "read_all pos_of h8 grs' = Some (goals st)"
    proof (rule read_all_nthI)
      show "length grs' = length (goals st)" by (simp add: leng gg)
      fix j assume "j < length grs'"
      then have j: "j < g" by (simp add: leng)
      then have e: "grs' ! j = n + 2 + k + j" by (simp add: grs'_def del: upt_Suc)
      have "deref h8 (grs' ! j) = deref h6 (grs' ! j)"
        using j by (intro E) (simp_all add: e B_def len6 N_def)
      then have "pos_of h8 (grs' ! j) = pos_of h6 (grs' ! j)" by (rule pos_of_local)
      with Gel[OF j] show "pos_of h8 (grs' ! j) = Some (goals st ! j)" by simp
    qed
    have B8: "read_all box_of h8 (brs'[i := N + 2]) = Some ((boxes st)[i := ?v])"
    proof (rule read_all_nthI)
      show "length (brs'[i := N + 2]) = length ((boxes st)[i := ?v])"
        by (simp add: lenb kb)
      fix j assume "j < length (brs'[i := N + 2])"
      then have j: "j < k" by (simp add: lenb)
      show "box_of h8 (brs'[i := N + 2] ! j) = Some ((boxes st)[i := ?v] ! j)"
      proof (cases "j = i")
        case True
        with i E_new show ?thesis
          by (simp add: lenb kb box_of_Some_iff sh2)
      next
        case False
        have e: "brs' ! j = n + 1 + j" using j by (simp add: brs'_def del: upt_Suc)
        have "deref h8 (brs' ! j) = deref h6 (brs' ! j)"
          using j by (intro E) (simp_all add: e B_def len6 N_def)
        then have "box_of h8 (brs' ! j) = box_of h6 (brs' ! j)" by (rule box_of_local)
        with Bel[OF j] False show ?thesis by simp
      qed
    qed
    have DB8: "deref h8 (ref_boxes ?S') = Some (Arr (brs'[i := N + 2]))"
      using E_boxes by simp
    have "state_of h8 N = Some \<lparr>player = Some (shift mv p), boxes = (boxes st)[i := ?v],
        goals = goals st, walls = walls st, width = val_width ?S', height = val_height ?S',
        map_rows = map_rows st\<rparr>"
      using S8 P8 DB8 B8 DG8 G8 W8 M8 by (rule state_of_SomeI)
    then have n: "state_of h8 N =
        Some (st\<lparr>player := Some (shift mv p), boxes := (boxes st)[i := ?v]\<rparr>)"
      using f(9,10) by (cases st) simp
    from r fr T8 old8 a n show ?thesis by blast
  qed
qed

lemma state_of_p0_SomeD:
  assumes "state_of_p0 h s = Some st"
  obtains so brs grs where
    "deref h s = Some (State_p0 so)"
    "player_of h (ref_player_p0 so) = Some (player_p0 st)"
    "deref h (ref_boxes_p0 so) = Some (Arr brs)" "read_all pos_of h brs = Some (boxes_p0 st)"
    "deref h (ref_goals_p0 so) = Some (Arr grs)" "read_all pos_of h grs = Some (goals_p0 st)"
    "deref h (ref_walls_p0 so) = Some (Strs (walls_p0 st))"
    "width_p0 st = val_width_p0 so" "height_p0 st = val_height_p0 so"
  using assms
  by (auto simp: state_of_p0_def array_of_def Option.bind_eq_Some_conv read_state_p0_Some_iff
      read_arr_Some_iff read_strs_Some_iff)

lemma state_of_p0_SomeI:
  assumes "deref h s = Some (State_p0 so)"
    "player_of h (ref_player_p0 so) = Some pl"
    "deref h (ref_boxes_p0 so) = Some (Arr brs)" "read_all pos_of h brs = Some bs"
    "deref h (ref_goals_p0 so) = Some (Arr grs)" "read_all pos_of h grs = Some gs"
    "deref h (ref_walls_p0 so) = Some (Strs ws)"
  shows "state_of_p0 h s = Some \<lparr>player_p0 = pl, boxes_p0 = bs, goals_p0 = gs, walls_p0 = ws,
     width_p0 = val_width_p0 so, height_p0 = val_height_p0 so\<rparr>"
  using assms
  by (simp add: state_of_p0_def array_of_def read_state_p0_def read_arr_def read_strs_def)

lemma state_of_p0_prefix:
  assumes "state_of_p0 h s = Some st" and pre: "take (length h) h' = h"
  shows "state_of_p0 h' s = Some st"
proof -
  from assms(1) obtain so brs grs where f:
    "deref h s = Some (State_p0 so)"
    "player_of h (ref_player_p0 so) = Some (player_p0 st)"
    "deref h (ref_boxes_p0 so) = Some (Arr brs)" "read_all pos_of h brs = Some (boxes_p0 st)"
    "deref h (ref_goals_p0 so) = Some (Arr grs)" "read_all pos_of h grs = Some (goals_p0 st)"
    "deref h (ref_walls_p0 so) = Some (Strs (walls_p0 st))"
    "width_p0 st = val_width_p0 so" "height_p0 st = val_height_p0 so"
    by (rule state_of_p0_SomeD)
  have pl: "player_of h' (ref_player_p0 so) = Some (player_p0 st)"
  proof (cases "ref_player_p0 so")
    case None
    with f(2) show ?thesis by (simp add: player_of_def)
  next
    case (Some pr)
    with f(2) obtain c where c: "pos_of h pr = Some c" "player_p0 st = Some c"
      by (cases "pos_of h pr") (auto simp: player_of_def)
    then have "pos_of h' pr = Some c"
      using deref_prefix_Some[OF _ pre] by (simp add: pos_of_Some_iff)
    with c Some show ?thesis by (simp add: player_of_def)
  qed
  have bs: "read_all pos_of h' brs = Some (boxes_p0 st)"
    using f(4) pos_of_local pos_of_Some_less pre by (rule read_all_prefix)
  have gs: "read_all pos_of h' grs = Some (goals_p0 st)"
    using f(6) pos_of_local pos_of_Some_less pre by (rule read_all_prefix)
  have "state_of_p0 h' s = Some \<lparr>player_p0 = player_p0 st, boxes_p0 = boxes_p0 st,
     goals_p0 = goals_p0 st, walls_p0 = walls_p0 st, width_p0 = val_width_p0 so,
     height_p0 = val_height_p0 so\<rparr>"
    using f(1)[THEN deref_prefix_Some, OF pre] pl f(3)[THEN deref_prefix_Some, OF pre] bs
      f(5)[THEN deref_prefix_Some, OF pre] gs f(7)[THEN deref_prefix_Some, OF pre]
    by (rule state_of_p0_SomeI)
  with f(8,9) show ?thesis by simp
qed

text \<open>The same for \<^verbatim>\<open>applyMove\<close> of \<^verbatim>\<open>part_000\<close>.\<close>

lemma applyMove_store_p0_correct:
  assumes st: "state_of_p0 h s = Some st" and pl: "player_p0 st = Some p"
  shows "\<exists>h' s'. applyMove_store_p0 h s mv = Some (h', s') \<and> length h \<le> s' \<and>
           take (length h) h' = h \<and> state_of_p0 h' s = Some st \<and>
           (\<exists>st'. applyMove_p0 st mv = Inr st' \<and> state_of_p0 h' s' = Some st')"
proof -
  from st obtain so brs grs where f:
    "deref h s = Some (State_p0 so)"
    "player_of h (ref_player_p0 so) = Some (player_p0 st)"
    "deref h (ref_boxes_p0 so) = Some (Arr brs)" "read_all pos_of h brs = Some (boxes_p0 st)"
    "deref h (ref_goals_p0 so) = Some (Arr grs)" "read_all pos_of h grs = Some (goals_p0 st)"
    "deref h (ref_walls_p0 so) = Some (Strs (walls_p0 st))"
    "width_p0 st = val_width_p0 so" "height_p0 st = val_height_p0 so"
    by (rule state_of_p0_SomeD)
  from f(2) pl obtain pr where pr: "ref_player_p0 so = Some pr"
    and dpr: "deref h pr = Some (Pos (pos_x p) (pos_y p))"
    by (cases "ref_player_p0 so"; cases "pos_of h (the (ref_player_p0 so))")
       (auto simp: player_of_def pos_of_Some_iff)
  obtain dx dy where d: "dirs mv = (dx, dy)" by (cases "dirs mv")
  then have d': "moves mv = (dx, dy)" by (simp add: moves_eq_dirs)
  let ?nX = "pos_x p + dx"
  let ?nY = "pos_y p + dy"
  have sh: "shift mv p = \<lparr>pos_x = ?nX, pos_y = ?nY\<rparr>"
    by (simp add: shift_def d)
  have sh2: "shift mv (shift mv p) = \<lparr>pos_x = ?nX + dx, pos_y = ?nY + dy\<rparr>"
    unfolding sh by (simp add: shift_def d)
  define n where "n = length h"
  define k where "k = length brs"
  define g where "g = length grs"
  note bD = read_all_nthD[OF f(4)] and gD = read_all_nthD[OF f(6)]
  have kb: "length (boxes_p0 st) = k" and gg: "length (goals_p0 st) = g"
    using bD(1) gD(1) by (simp_all add: k_def g_def)
  have bl: "i < k \<Longrightarrow> brs ! i < n" for i
    using bD(2)[of i] pos_of_Some_less[of h "brs ! i"] by (simp add: k_def n_def)
  have gl: "j < g \<Longrightarrow> grs ! j < n" for j
    using gD(2)[of j] pos_of_Some_less[of h "grs ! j"] by (simp add: g_def n_def)
  have sl: "s < n" "pr < n" "ref_boxes_p0 so < n" "ref_goals_p0 so < n" "ref_walls_p0 so < n"
    using f(1,3,5,7) dpr by (simp_all add: deref_Some_iff n_def)
  define B where "B = n + 1 + k"
  define G where "G = n + 2 + k + g"
  define W where "W = n + 3 + k + g"
  define N where "N = n + 4 + k + g"
  define L where "L = n + 5 + k + g"
  define brs' where "brs' = [n + 1..<n + 1 + k]"
  define grs' where "grs' = [n + 2 + k..<n + 2 + k + g]"
  have lenb: "length brs' = k" and leng: "length grs' = g"
    by (simp_all add: brs'_def grs'_def del: upt_Suc)
  define h1 where "h1 = h @ [Pos (pos_x p) (pos_y p)]"
  define h2 where "h2 = h1 @ map (\<lambda>r. h1 ! r) brs @ [Arr [length h1..<length h1 + length brs]]"
  define h3 where "h3 = h2 @ map (\<lambda>r. h2 ! r) grs @ [Arr [length h2..<length h2 + length grs]]"
  have len1: "length h1 = n + 1" by (simp add: h1_def n_def)
  have len2: "length h2 = n + 2 + k" by (simp add: h2_def len1 k_def)
  have len3: "length h3 = W" by (simp add: h3_def len2 g_def W_def)
  have mb: "map (\<lambda>r. h1 ! r) brs = map (\<lambda>r. h ! r) brs"
    using bl by (intro nth_equalityI) (simp_all add: h1_def nth_append n_def k_def)
  have mg: "map (\<lambda>r. h2 ! r) grs = map (\<lambda>r. h ! r) grs"
    using gl by (intro nth_equalityI) (simp_all add: h2_def h1_def nth_append n_def g_def)
  have h2_eq: "h2 = h @ Pos (pos_x p) (pos_y p) # map (\<lambda>r. h ! r) brs @ [Arr brs']"
    by (simp add: h2_def mb len1 brs'_def k_def) (simp add: h1_def)
  have h3_eq: "h3 = h @ Pos (pos_x p) (pos_y p) # map (\<lambda>r. h ! r) brs @ Arr brs' #
      map (\<lambda>r. h ! r) grs @ [Arr grs']"
    by (simp add: h3_def mg len2 grs'_def g_def) (simp add: h2_eq)
  have c1: "clone_pos h pr = Some (h1, n)"
    by (simp add: clone_pos_eq[OF dpr] h1_def n_def)
  have c2: "clone_array clone_pos h1 (ref_boxes_p0 so) = Some (h2, B)"
  proof -
    have a: "read_arr h1 (ref_boxes_p0 so) = Some brs"
      using f(3) sl by (simp add: read_arr_Some_iff h1_def deref_append_left n_def)
    have b: "\<forall>r\<in>set brs. pos_of h1 r \<noteq> None"
    proof
      fix r assume "r \<in> set brs"
      then obtain i where i: "i < k" "r = brs ! i" by (auto simp: in_set_conv_nth k_def)
      then have "deref h1 r = deref h r" using bl[of i]
        by (simp add: h1_def deref_append_left n_def)
      then have "pos_of h1 r = pos_of h r" by (rule pos_of_local)
      with bD(2)[of i] i show "pos_of h1 r \<noteq> None" by (simp add: k_def)
    qed
    from clone_array_pos[OF a b] show ?thesis by (simp add: h2_def len1 k_def B_def)
  qed
  have c3: "clone_array clone_pos h2 (ref_goals_p0 so) = Some (h3, G)"
  proof -
    have a: "read_arr h2 (ref_goals_p0 so) = Some grs"
      using f(5) sl by (simp add: read_arr_Some_iff h2_eq deref_append_left n_def)
    have b: "\<forall>r\<in>set grs. pos_of h2 r \<noteq> None"
    proof
      fix r assume "r \<in> set grs"
      then obtain j where j: "j < g" "r = grs ! j" by (auto simp: in_set_conv_nth g_def)
      then have "deref h2 r = deref h r" using gl[of j]
        by (simp add: h2_eq deref_append_left n_def)
      then have "pos_of h2 r = pos_of h r" by (rule pos_of_local)
      with gD(2)[of j] j show "pos_of h2 r \<noteq> None" by (simp add: g_def)
    qed
    from clone_array_pos[OF a b] show ?thesis by (simp add: h3_def len2 g_def G_def)
  qed
  have cw: "clone_strs h3 (ref_walls_p0 so) = Some (h3 @ [Strs (walls_p0 st)], W)"
    using f(7) sl
    by (simp add: clone_strs_def read_strs_def h3_eq deref_append_left n_def alloc_def
        len3[symmetric])
  let ?S = "\<lparr>ref_player_p0 = Some n, ref_boxes_p0 = B, ref_goals_p0 = G, ref_walls_p0 = W,
             val_width_p0 = json_num (val_width_p0 so), val_height_p0 = val_height_p0 so\<rparr>"
  define h5 where "h5 = h3 @ [Strs (walls_p0 st), State_p0 ?S]"
  have len5: "length h5 = L" by (simp add: h5_def len3 W_def L_def)
  have jc: "json_clone_store h s = Some (h5, N)"
  proof -
    have r0: "read_state_p0 h s = Some so" using f(1) by (simp add: read_state_p0_Some_iff)
    have a4: "alloc (h3 @ [Strs (walls_p0 st)]) (State_p0 ?S) = (h5, N)"
      by (simp add: alloc_def h5_def len3 W_def N_def)
    show ?thesis
      by (simp add: json_clone_store_def r0 pr c1 c2 c3 cw a4)
  qed
  have D_old: "r < n \<Longrightarrow> deref h5 r = deref h r" for r
    by (simp add: h5_def h3_eq deref_def nth_append n_def)
  have D_pl: "deref h5 n = Some (Pos (pos_x p) (pos_y p))"
    by (simp add: h5_def h3_eq deref_def nth_append n_def)
  have D_bel: "i < k \<Longrightarrow> deref h5 (n + 1 + i) = deref h (brs ! i)" for i
    using bl[of i] by (simp add: h5_def h3_eq deref_def nth_append n_def k_def)
  have D_boxes: "deref h5 B = Some (Arr brs')"
    by (simp add: h5_def h3_eq deref_def nth_append n_def k_def B_def)
  have D_gel: "j < g \<Longrightarrow> deref h5 (n + 2 + k + j) = deref h (grs ! j)" for j
    using gl[of j] by (simp add: h5_def h3_eq deref_def nth_append n_def k_def g_def)
  have D_goals: "deref h5 G = Some (Arr grs')"
    by (simp add: h5_def h3_eq deref_def nth_append n_def k_def g_def G_def)
  have D_walls: "deref h5 W = Some (Strs (walls_p0 st))"
    by (simp add: h5_def deref_def nth_append len3)
  have D_state: "deref h5 N = Some (State_p0 ?S)"
    by (simp add: h5_def deref_def nth_append len3) (simp add: N_def W_def)
  have T5: "take (length h) h5 = h"
    by (simp add: h5_def h3_eq)
  have Bel: "i < k \<Longrightarrow> pos_of h5 (brs' ! i) = Some (boxes_p0 st ! i)" for i
  proof -
    assume i: "i < k"
    then have e: "brs' ! i = n + 1 + i" by (simp add: brs'_def del: upt_Suc)
    have "pos_of h5 (n + 1 + i) = pos_of h (brs ! i)"
      using D_bel[OF i] by (rule pos_of_local)
    with bD(2)[of i] i e show ?thesis by (simp add: k_def)
  qed
  have Gel: "j < g \<Longrightarrow> pos_of h5 (grs' ! j) = Some (goals_p0 st ! j)" for j
  proof -
    assume j: "j < g"
    then have e: "grs' ! j = n + 2 + k + j" by (simp add: grs'_def del: upt_Suc)
    have "pos_of h5 (n + 2 + k + j) = pos_of h (grs ! j)"
      using D_gel[OF j] by (rule pos_of_local)
    with gD(2)[of j] j e show ?thesis by (simp add: g_def)
  qed
  have fi: "findIndex (at_cell h5 ?nX ?nY) brs' =
      findIndex (\<lambda>b. b = shift mv p) (boxes_p0 st)"
  proof (rule findIndex_cong)
    show "length brs' = length (boxes_p0 st)" by (simp add: lenb kb)
    fix i assume "i < length brs'"
    then have i: "i < k" by (simp add: lenb)
    from Bel[OF i] show "at_cell h5 ?nX ?nY (brs' ! i) = (boxes_p0 st ! i = shift mv p)"
      by (auto simp: pos_of_Some_iff at_cell_def sh pos_eq_iff)
  qed
  have run: "applyMove_store_p0 h s mv =
      do {
        h3 \<leftarrow>
          (case findIndex (at_cell h5 ?nX ?nY) brs' of
             None \<Rightarrow> Some h5
           | Some boxIndex \<Rightarrow>
               do {
                 (h2, b) \<leftarrow> Some (alloc h5 (Pos (?nX + dx) (?nY + dy)));
                 set_elem h2 B boxIndex b
               });
        (h4, q) \<leftarrow> Some (alloc h3 (Pos ?nX ?nY));
        h5' \<leftarrow> set_player_p0 h4 N q;
        Some (h5', N)
      }"
  proof -
    have r5: "read_state_p0 h5 N = Some ?S"
      using D_state by (simp add: read_state_p0_Some_iff)
    have p5: "read_pos h5 n = Some (pos_x p, pos_y p)"
      using D_pl by (simp add: read_pos_Some_iff)
    have b5: "read_arr h5 B = Some brs'"
      using D_boxes by (simp add: read_arr_Some_iff)
    show ?thesis
      by (simp add: applyMove_store_p0_def jc r5 p5 d' b5 cong: option.case_cong)
  qed
  have Bl: "n \<le> B" "B < N" "N < L" "n \<le> N"
    by (simp_all add: B_def N_def L_def)
  have fr: "length h \<le> N" by (simp add: N_def n_def)
  show ?thesis
  proof (cases "findIndex (\<lambda>b. b = shift mv p) (boxes_p0 st)")
    case None
    let ?S' = "\<lparr>ref_player_p0 = Some L, ref_boxes_p0 = B, ref_goals_p0 = G, ref_walls_p0 = W,
             val_width_p0 = json_num (val_width_p0 so), val_height_p0 = val_height_p0 so\<rparr>"
    define hF where "hF = (h5 @ [Pos ?nX ?nY])[N := State_p0 ?S']"
    have sp: "set_player_p0 (h5 @ [Pos ?nX ?nY]) N L = Some hF"
      using D_state Bl
      by (simp add: set_player_p0_def read_state_p0_def deref_append_left len5 hF_def)
    have r: "applyMove_store_p0 h s mv = Some (hF, N)"
      by (simp only: run fi None option.case Option.bind.simps prod.case alloc_def len5 sp)
    have a: "applyMove_p0 st mv =
        Inr (st\<lparr>width_p0 := json_num (width_p0 st), player_p0 := Some (shift mv p)\<rparr>)"
      using pl None by (simp add: applyMove_p0_unfold)
    have F: "r \<noteq> N \<Longrightarrow> r < L \<Longrightarrow> deref hF r = deref h5 r" for r
      by (simp add: hF_def deref_update deref_append_left len5)
    have F_state: "deref hF N = Some (State_p0 ?S')"
      using Bl by (simp add: hF_def deref_update len5)
    have F_q: "deref hF L = Some (Pos ?nX ?nY)"
      using Bl deref_append_right[of h5 "[Pos ?nX ?nY]" 0]
      by (simp add: hF_def deref_update len5 deref_def)
    have T: "take (length h) hF = h"
      using T5 Bl by (simp add: hF_def n_def len5)
    have old: "state_of_p0 hF s = Some st" using st T by (rule state_of_p0_prefix)
    have PF: "player_of hF (ref_player_p0 ?S') = Some (Some (shift mv p))"
      using F_q by (simp add: player_of_def pos_of_def read_pos_def sh)
    have DB: "deref hF (ref_boxes_p0 ?S') = Some (Arr brs')"
      using F[of B] D_boxes Bl by simp
    have DG: "deref hF (ref_goals_p0 ?S') = Some (Arr grs')"
      using F[of G] D_goals by (simp add: G_def N_def L_def)
    have DW: "deref hF (ref_walls_p0 ?S') = Some (Strs (walls_p0 st))"
      using F[of W] D_walls by (simp add: W_def N_def L_def)
    have BF: "read_all pos_of hF brs' = Some (boxes_p0 st)"
    proof (rule read_all_nthI)
      show "length brs' = length (boxes_p0 st)" by (simp add: lenb kb)
      fix j assume "j < length brs'"
      then have j: "j < k" by (simp add: lenb)
      then have e: "brs' ! j = n + 1 + j" by (simp add: brs'_def del: upt_Suc)
      have "deref hF (brs' ! j) = deref h5 (brs' ! j)"
        using j by (intro F) (simp_all add: e N_def L_def)
      then have "pos_of hF (brs' ! j) = pos_of h5 (brs' ! j)" by (rule pos_of_local)
      with Bel[OF j] show "pos_of hF (brs' ! j) = Some (boxes_p0 st ! j)" by simp
    qed
    have GF: "read_all pos_of hF grs' = Some (goals_p0 st)"
    proof (rule read_all_nthI)
      show "length grs' = length (goals_p0 st)" by (simp add: leng gg)
      fix j assume "j < length grs'"
      then have j: "j < g" by (simp add: leng)
      then have e: "grs' ! j = n + 2 + k + j" by (simp add: grs'_def del: upt_Suc)
      have "deref hF (grs' ! j) = deref h5 (grs' ! j)"
        using j by (intro F) (simp_all add: e N_def L_def)
      then have "pos_of hF (grs' ! j) = pos_of h5 (grs' ! j)" by (rule pos_of_local)
      with Gel[OF j] show "pos_of hF (grs' ! j) = Some (goals_p0 st ! j)" by simp
    qed
    have "state_of_p0 hF N = Some \<lparr>player_p0 = Some (shift mv p), boxes_p0 = boxes_p0 st,
        goals_p0 = goals_p0 st, walls_p0 = walls_p0 st, width_p0 = val_width_p0 ?S',
        height_p0 = val_height_p0 ?S'\<rparr>"
      using F_state PF DB BF DG GF DW by (rule state_of_p0_SomeI)
    then have n: "state_of_p0 hF N =
        Some (st\<lparr>width_p0 := json_num (width_p0 st), player_p0 := Some (shift mv p)\<rparr>)"
      using f(8,9) by (cases st) simp
    from r fr T old a n show ?thesis by blast
  next
    case (Some i)
    then have i: "i < k" and at: "boxes_p0 st ! i = shift mv p"
      by (simp_all add: findIndex_Some kb)
    define Q where "Q = L + 1"
    let ?c = "Pos (?nX + dx) (?nY + dy)"
    let ?S' = "\<lparr>ref_player_p0 = Some Q, ref_boxes_p0 = B, ref_goals_p0 = G, ref_walls_p0 = W,
             val_width_p0 = json_num (val_width_p0 so), val_height_p0 = val_height_p0 so\<rparr>"
    define h7 where "h7 = (h5 @ [?c])[B := Arr (brs'[i := L])]"
    define hF where "hF = (h7 @ [Pos ?nX ?nY])[N := State_p0 ?S']"
    have len7: "length h7 = Q" by (simp add: h7_def len5 Q_def)
    have se: "set_elem (h5 @ [?c]) B i L = Some h7"
      using D_boxes Bl by (simp add: set_elem_def read_arr_def deref_append_left len5 h7_def)
    have d7: "deref h7 N = Some (State_p0 ?S)"
      using D_state Bl by (simp add: h7_def deref_update deref_append_left len5)
    have sp: "set_player_p0 (h7 @ [Pos ?nX ?nY]) N Q = Some hF"
      using d7 Bl
      by (simp add: set_player_p0_def read_state_p0_def deref_append_left len7 hF_def Q_def)
    have r: "applyMove_store_p0 h s mv = Some (hF, N)"
      by (simp only: run fi Some option.case Option.bind.simps prod.case alloc_def len5 se
          len7 sp)
    have a: "applyMove_p0 st mv =
        Inr (st\<lparr>width_p0 := json_num (width_p0 st), player_p0 := Some (shift mv p),
              boxes_p0 := (boxes_p0 st)[i := shift mv (shift mv p)]\<rparr>)"
      using pl Some by (simp add: applyMove_p0_unfold)
    have F: "r \<noteq> N \<Longrightarrow> r \<noteq> B \<Longrightarrow> r < L \<Longrightarrow> deref hF r = deref h5 r" for r
      by (simp add: hF_def h7_def deref_update deref_append_left len5 len7 Q_def)
    have F_state: "deref hF N = Some (State_p0 ?S')"
      using Bl by (simp add: hF_def deref_update len7 Q_def)
    have F_boxes: "deref hF B = Some (Arr (brs'[i := L]))"
      using Bl by (simp add: hF_def h7_def deref_update deref_append_left len5 len7 Q_def)
    have F_new: "deref hF L = Some ?c"
      using Bl deref_append_right[of h5 "[?c]" 0]
      by (simp add: hF_def h7_def deref_update deref_append_left len5 len7 Q_def)
         (simp add: deref_def len5)
    have F_q: "deref hF Q = Some (Pos ?nX ?nY)"
      using Bl deref_append_right[of h7 "[Pos ?nX ?nY]" 0]
      by (simp add: hF_def deref_update len7 deref_def Q_def)
    have T: "take (length h) hF = h"
      using T5 Bl len7 by (simp add: hF_def n_def Q_def) (simp add: h7_def len5)
    have old: "state_of_p0 hF s = Some st" using st T by (rule state_of_p0_prefix)
    have PF: "player_of hF (ref_player_p0 ?S') = Some (Some (shift mv p))"
      using F_q by (simp add: player_of_def pos_of_def read_pos_def sh)
    have DB: "deref hF (ref_boxes_p0 ?S') = Some (Arr (brs'[i := L]))"
      using F_boxes by simp
    have DG: "deref hF (ref_goals_p0 ?S') = Some (Arr grs')"
      using F[of G] D_goals by (simp add: G_def N_def L_def B_def)
    have DW: "deref hF (ref_walls_p0 ?S') = Some (Strs (walls_p0 st))"
      using F[of W] D_walls by (simp add: W_def N_def L_def B_def)
    have BF: "read_all pos_of hF (brs'[i := L]) =
        Some ((boxes_p0 st)[i := shift mv (shift mv p)])"
    proof (rule read_all_nthI)
      show "length (brs'[i := L]) = length ((boxes_p0 st)[i := shift mv (shift mv p)])"
        by (simp add: lenb kb)
      fix j assume "j < length (brs'[i := L])"
      then have j: "j < k" by (simp add: lenb)
      show "pos_of hF (brs'[i := L] ! j) = Some ((boxes_p0 st)[i := shift mv (shift mv p)] ! j)"
      proof (cases "j = i")
        case True
        with i F_new show ?thesis
          by (simp add: lenb kb pos_of_Some_iff sh2)
      next
        case False
        have e: "brs' ! j = n + 1 + j" using j by (simp add: brs'_def del: upt_Suc)
        have "deref hF (brs' ! j) = deref h5 (brs' ! j)"
          using j by (intro F) (simp_all add: e B_def N_def L_def)
        then have "pos_of hF (brs' ! j) = pos_of h5 (brs' ! j)" by (rule pos_of_local)
        with Bel[OF j] False show ?thesis by simp
      qed
    qed
    have GF: "read_all pos_of hF grs' = Some (goals_p0 st)"
    proof (rule read_all_nthI)
      show "length grs' = length (goals_p0 st)" by (simp add: leng gg)
      fix j assume "j < length grs'"
      then have j: "j < g" by (simp add: leng)
      then have e: "grs' ! j = n + 2 + k + j" by (simp add: grs'_def del: upt_Suc)
      have "deref hF (grs' ! j) = deref h5 (grs' ! j)"
        using j by (intro F) (simp_all add: e B_def N_def L_def)
      then have "pos_of hF (grs' ! j) = pos_of h5 (grs' ! j)" by (rule pos_of_local)
      with Gel[OF j] show "pos_of hF (grs' ! j) = Some (goals_p0 st ! j)" by simp
    qed
    have "state_of_p0 hF N = Some \<lparr>player_p0 = Some (shift mv p),
        boxes_p0 = (boxes_p0 st)[i := shift mv (shift mv p)],
        goals_p0 = goals_p0 st, walls_p0 = walls_p0 st, width_p0 = val_width_p0 ?S',
        height_p0 = val_height_p0 ?S'\<rparr>"
      using F_state PF DB BF DG GF DW by (rule state_of_p0_SomeI)
    then have n: "state_of_p0 hF N =
        Some (st\<lparr>width_p0 := json_num (width_p0 st), player_p0 := Some (shift mv p),
              boxes_p0 := (boxes_p0 st)[i := shift mv (shift mv p)]\<rparr>)"
      using f(8,9) by (cases st) simp
    from r fr T old a n show ?thesis by blast
  qed
qed

text \<open>
  Claim C8.  In both copies, \<^verbatim>\<open>applyMove\<close> called on a state object with a mover returns a
  reference to a new object, leaves every object that was in the store unchanged (so the
  mover and the boxes of the input state are what they were before the call), and the state
  behind the returned reference is the successor that \<open>applyMove\<close> computes on values.
\<close>

theorem applyMove_leaves_input:
  "(state_of h s = Some st \<and> player st \<noteq> None \<longrightarrow>
      (\<exists>h' s'. applyMove_store h s mv = Some (h', s') \<and> length h \<le> s' \<and>
         take (length h) h' = h \<and> state_of h' s = Some st \<and>
         (\<exists>st'. applyMove st mv = Inr st' \<and> state_of h' s' = Some st'))) \<and>
   (state_of_p0 h s0 = Some st0 \<and> player_p0 st0 \<noteq> None \<longrightarrow>
      (\<exists>h' s'. applyMove_store_p0 h s0 mv = Some (h', s') \<and> length h \<le> s' \<and>
         take (length h) h' = h \<and> state_of_p0 h' s0 = Some st0 \<and>
         (\<exists>st'. applyMove_p0 st0 mv = Inr st' \<and> state_of_p0 h' s' = Some st')))"
  using applyMove_store_correct[of h s st _ mv] applyMove_store_p0_correct[of h s0 st0 _ mv]
  by auto

theorem applyMove_leaves_input_witness:
  "(\<exists>h' s'. applyMove_store example_store 7 R = Some (h', s') \<and>
      take (length example_store) h' = example_store \<and>
      state_of h' 7 = Some (projr (parseMap [''#@$.'']))) \<and>
   (\<exists>h' s'. applyMove_store_p0 example_store 14 R = Some (h', s') \<and>
      take (length example_store) h' = example_store \<and>
      state_of_p0 h' 14 = Some (parseMap_p0 [''#@$.'']))"
proof -
  have a: "state_of example_store 7 = Some (projr (parseMap [''#@$.'']))"
    and b: "player (projr (parseMap [''#@$.''])) \<noteq> None"
    and c: "state_of_p0 example_store 14 = Some (parseMap_p0 [''#@$.''])"
    and d: "player_p0 (parseMap_p0 [''#@$.'']) \<noteq> None"
    by code_simp+
  from a b c d
    applyMove_leaves_input[of example_store 7 "projr (parseMap [''#@$.''])" R 14
      "parseMap_p0 [''#@$.'']"]
  show ?thesis by blast
qed

text \<open>On a state without a mover both models of \<^verbatim>\<open>applyMove\<close> of \<^verbatim>\<open>App.js\<close> throw.\<close>

lemma applyMove_store_null_player:
  "state_of h s = Some st \<Longrightarrow> player st = None \<Longrightarrow>
   applyMove_store h s mv = None \<and> applyMove st mv = Inl TypeError"
  by (erule state_of_SomeD)
     (auto simp: applyMove_store_def applyMove_def read_state_def player_of_def
        split: option.splits)

end
